theory Spec2Isabelle
  imports Complex_Main
begin

section \<open>C--H contact intervals of a trajectory (analyzing/CH_formation.py)\<close>

text \<open>
  The script reads a multi-frame XYZ trajectory and, optionally, a monitor log, and
  reports for every carbon--hydrogen pair the frame ranges in which the two atoms stay
  within a cut-off distance, together with the first time the electron count of the
  monitor log drops below a threshold.

  Numbers: Python's \<open>float\<close> is modelled by \<open>real\<close>, Python's \<open>int\<close> by \<open>int\<close>,
  without rounding and without infinities. The segmenter and the threshold scan are
  polymorphic in the value type and use only its comparison, of which nothing is
  assumed; \<open>py_value\<close> below is a value type with a NaN, whose comparisons are all
  false.
\<close>

subsection \<open>Interval segmenter: \<open>find_intervals\<close>\<close>

text \<open>
  The loop \<open>for i, r in enumerate(seq)\<close> with its two variables \<open>intervals\<close> and
  \<open>start\<close> (\<open>None\<close> when no run is open). The counter \<open>i\<close> is passed along.
\<close>

fun find_intervals_loop ::
  "'a::ord \<Rightarrow> int \<Rightarrow> int \<Rightarrow> 'a list \<Rightarrow> (int \<times> int) list \<Rightarrow> int option \<Rightarrow> (int \<times> int) list \<times> int option"
where
  "find_intervals_loop cutoff min_len_frames i [] intervals start = (intervals, start)"
| "find_intervals_loop cutoff min_len_frames i (r # rs) intervals start =
     (if r \<le> cutoff then
        (case start of
           None \<Rightarrow> find_intervals_loop cutoff min_len_frames (i + 1) rs intervals (Some i)
         | Some s \<Rightarrow> find_intervals_loop cutoff min_len_frames (i + 1) rs intervals (Some s))
      else
        (case start of
           None \<Rightarrow> find_intervals_loop cutoff min_len_frames (i + 1) rs intervals None
         | Some s \<Rightarrow>
             (let end = i - 1 in
              if end - s + 1 \<ge> min_len_frames
              then find_intervals_loop cutoff min_len_frames (i + 1) rs (intervals @ [(s, end)]) None
              else find_intervals_loop cutoff min_len_frames (i + 1) rs intervals None)))"

definition find_intervals :: "'a::ord list \<Rightarrow> 'a \<Rightarrow> int \<Rightarrow> (int \<times> int) list" where
  "find_intervals seq cutoff min_len_frames =
     (case find_intervals_loop cutoff min_len_frames 0 seq [] None of
        (intervals, None) \<Rightarrow> intervals
      | (intervals, Some s) \<Rightarrow>
          (let end = int (length seq) - 1 in
           if end - s + 1 \<ge> min_len_frames then intervals @ [(s, end)] else intervals))"

text \<open>The slice \<open>seq[start : end + 1]\<close> of an emitted interval, as the spec isolates it.\<close>

definition slice_incl :: "'a list \<Rightarrow> int \<Rightarrow> int \<Rightarrow> 'a list" where
  "slice_incl seq s e = take (nat (e + 1 - s)) (drop (nat s) seq)"

text \<open>
  Float values with a NaN: \<open>float('nan')\<close> parses, \<open>math.sqrt\<close> passes it on, and
  every comparison with it is false, so the order is not linear.
\<close>

datatype py_value = Finite real | NaN

instantiation py_value :: ord
begin

definition less_eq_py_value :: "py_value \<Rightarrow> py_value \<Rightarrow> bool" where
  "less_eq_py_value x y =
     (case (x, y) of (Finite a, Finite b) \<Rightarrow> a \<le> b | _ \<Rightarrow> False)"

definition less_py_value :: "py_value \<Rightarrow> py_value \<Rightarrow> bool" where
  "less_py_value x y =
     (case (x, y) of (Finite a, Finite b) \<Rightarrow> a < b | _ \<Rightarrow> False)"

instance ..

end

subsection \<open>Python strings\<close>

text \<open>
  A string is a list of 8-bit characters. \<open>str.split()\<close> without arguments and
  \<open>str.strip()\<close> cut at the characters for which \<open>str.isspace\<close> holds (within ASCII:
  tab, line feed, vertical tab, form feed, carriage return, the four separators
  \<open>0x1C\<close> to \<open>0x1F\<close>, and the space); \<open>str.isdigit\<close> and \<open>str.upper\<close> are read on
  ASCII.
\<close>

definition is_space :: "char \<Rightarrow> bool" where
  "is_space c = (c \<in> set [CHR 0x09, CHR 0x0A, CHR 0x0B, CHR 0x0C, CHR 0x0D,
                          CHR 0x1C, CHR 0x1D, CHR 0x1E, CHR 0x1F, CHR 0x20])"

fun split_loop :: "string \<Rightarrow> string \<Rightarrow> string list" where
  "split_loop cur [] = (if cur = [] then [] else [cur])"
| "split_loop cur (c # cs) =
     (if is_space c then (if cur = [] then split_loop [] cs else cur # split_loop [] cs)
      else split_loop (cur @ [c]) cs)"

definition py_split :: "string \<Rightarrow> string list" where
  "py_split s = split_loop [] s"

definition py_strip :: "string \<Rightarrow> string" where
  "py_strip s = rev (dropWhile is_space (rev (dropWhile is_space s)))"

definition is_digit :: "char \<Rightarrow> bool" where
  "is_digit c = (48 \<le> (of_char c :: nat) \<and> (of_char c :: nat) \<le> 57)"

definition py_isdigit :: "string \<Rightarrow> bool" where
  "py_isdigit s = (s \<noteq> [] \<and> list_all is_digit s)"

definition digit_val :: "char \<Rightarrow> int" where
  "digit_val c = of_char c - 48"

text \<open>\<open>int(line)\<close> on a string of decimal digits.\<close>

definition py_int :: "string \<Rightarrow> int" where
  "py_int s = foldl (\<lambda>a c. 10 * a + digit_val c) 0 s"

definition upper_char :: "char \<Rightarrow> char" where
  "upper_char c =
     (if 97 \<le> (of_char c :: nat) \<and> (of_char c :: nat) \<le> 122
      then char_of ((of_char c :: nat) - 32) else c)"

definition py_upper :: "string \<Rightarrow> string" where
  "py_upper s = map upper_char s"

fun startswith :: "string \<Rightarrow> string \<Rightarrow> bool" where
  "startswith [] s = True"
| "startswith (p # ps) [] = False"
| "startswith (p # ps) (c # cs) = (p = c \<and> startswith ps cs)"

text \<open>\<open>pat in s\<close>: the substring test.\<close>

fun py_in :: "string \<Rightarrow> string \<Rightarrow> bool" where
  "py_in pat [] = (pat = [])"
| "py_in pat (c # cs) = (startswith pat (c # cs) \<or> py_in pat cs)"

subsection \<open>Errors, indexing, files\<close>

datatype error = FileNotFoundError | ValueError | IndexError

text \<open>\<open>xs[i]\<close>: a negative index counts from the end, an index out of range raises.\<close>

definition py_getitem :: "'a list \<Rightarrow> int \<Rightarrow> error + 'a" where
  "py_getitem xs i =
     (if 0 \<le> i \<and> i < int (length xs) then Inr (xs ! nat i)
      else if i < 0 \<and> - int (length xs) \<le> i then Inr (xs ! nat (int (length xs) + i))
      else Inl IndexError)"

definition enumerate_from0 :: "'a list \<Rightarrow> (int \<times> 'a) list" where
  "enumerate_from0 xs = zip (map int [0..<length xs]) xs"

text \<open>
  A file is the list of its lines, each as \<open>readline\<close> delivers it (with its line
  terminator, so never empty); the file system maps the path of a regular file to its
  lines. \<open>readline\<close> returns the empty string at the end of the file.
\<close>

type_synonym text_file = "string list"
type_synonym filesystem = "string \<rightharpoonup> text_file"

fun readline :: "text_file \<Rightarrow> string \<times> text_file" where
  "readline [] = ([], [])"
| "readline (l # ls) = (l, ls)"

definition is_file :: "filesystem \<Rightarrow> string \<Rightarrow> bool" where
  "is_file fs path = (fs path \<noteq> None)"

text \<open>
  Python's built-in \<open>float(tok)\<close> is a parameter \<open>float\<close> of the readers:
  \<open>None\<close> stands for its \<open>ValueError\<close>. For concrete files, \<open>float_dec\<close> reads a
  plain decimal literal (sign, digits, optional fraction, optional exponent) as the
  exact real it denotes, without rounding to binary64; every other token is refused.
\<close>

definition scale10 :: "real \<Rightarrow> int \<Rightarrow> real" where
  "scale10 x k = (if 0 \<le> k then x * 10 ^ nat k else x / 10 ^ nat (- k))"

definition dec_sign :: "string \<Rightarrow> real \<times> string" where
  "dec_sign s = (case s of
       c # cs \<Rightarrow> (if c = CHR ''-'' then (- 1, cs) else if c = CHR ''+'' then (1, cs) else (1, s))
     | [] \<Rightarrow> (1, s))"

definition dec_isign :: "string \<Rightarrow> int \<times> string" where
  "dec_isign s = (case s of
       c # cs \<Rightarrow> (if c = CHR ''-'' then (- 1, cs) else if c = CHR ''+'' then (1, cs) else (1, s))
     | [] \<Rightarrow> (1, s))"

definition is_exp_char :: "char \<Rightarrow> bool" where
  "is_exp_char c = (c = CHR ''e'' \<or> c = CHR ''E'')"

definition dec_exponent :: "string \<Rightarrow> int option" where
  "dec_exponent s = (case s of
       [] \<Rightarrow> Some 0
     | c # cs \<Rightarrow> (case dec_isign cs of (sg, ds) \<Rightarrow>
         if py_isdigit ds then Some (sg * py_int ds) else None))"

definition dec_mantissa :: "string \<Rightarrow> (int \<times> nat) option" where
  "dec_mantissa s =
     (let ip = takeWhile is_digit s; r = dropWhile is_digit s in
      case r of
        [] \<Rightarrow> (if ip = [] then None else Some (py_int ip, 0))
      | c # fp \<Rightarrow>
          (if c = CHR ''.'' \<and> list_all is_digit fp \<and> ip @ fp \<noteq> []
           then Some (py_int (ip @ fp), length fp) else None))"

definition float_dec :: "string \<Rightarrow> real option" where
  "float_dec tok =
     (case dec_sign tok of (sg, body) \<Rightarrow>
        (case dec_mantissa (takeWhile (\<lambda>c. \<not> is_exp_char c) body) of
           None \<Rightarrow> None
         | Some (m, k) \<Rightarrow>
             (case dec_exponent (dropWhile (\<lambda>c. \<not> is_exp_char c) body) of
                None \<Rightarrow> None
              | Some ex \<Rightarrow> Some (sg * scale10 (real_of_int m) (ex - int k)))))"

subsection \<open>Frame reader: \<open>frames_from_xyz\<close>\<close>

type_synonym atom = "string \<times> real list"
type_synonym frame = "atom list"

text \<open>\<open>tuple(map(float, xyz))\<close>: the first token that does not parse raises.\<close>

fun float_all :: "(string \<Rightarrow> real option) \<Rightarrow> string list \<Rightarrow> real list option" where
  "float_all float [] = Some []"
| "float_all float (t # ts) =
     (case float t of
        None \<Rightarrow> None
      | Some v \<Rightarrow> (case float_all float ts of None \<Rightarrow> None | Some vs \<Rightarrow> Some (v # vs)))"

text \<open>
  The inner loop \<open>for _ in range(nat)\<close>. The unpacking \<open>el, *xyz = ...\<close> raises
  \<open>ValueError\<close> on an empty token list, which is what \<open>readline\<close> gives at the end
  of the file.
\<close>

fun read_atoms :: "(string \<Rightarrow> real option) \<Rightarrow> nat \<Rightarrow> text_file \<Rightarrow> error + (frame \<times> text_file)" where
  "read_atoms float 0 fh = Inr ([], fh)"
| "read_atoms float (Suc n) fh =
     (case take 4 (py_split (fst (readline fh))) of
        [] \<Rightarrow> Inl ValueError
      | el # xyz \<Rightarrow>
          (case float_all float xyz of
             None \<Rightarrow> Inl ValueError
           | Some coord \<Rightarrow>
               (case read_atoms float n (snd (readline fh)) of
                  Inl e \<Rightarrow> Inl e
                | Inr (frame, fh') \<Rightarrow> Inr ((el, coord) # frame, fh'))))"

lemma readline_length: "length (snd (readline fh)) \<le> length fh"
  by (cases fh) auto

lemma readline_nonempty: "fst (readline fh) \<noteq> [] \<Longrightarrow> length (snd (readline fh)) < length fh"
  by (cases fh) auto

lemma read_atoms_length: "read_atoms float n fh = Inr (frame, fh') \<Longrightarrow> length fh' \<le> length fh"
proof (induction n arbitrary: fh frame)
  case 0
  then show ?case by simp
next
  case (Suc n)
  then show ?case
    using readline_length[of fh]
    by (fastforce split: list.splits option.splits sum.splits)
qed

text \<open>
  The generator's \<open>while True\<close> loop, collected by \<open>list(...)\<close>: the frames in order,
  or the exception that ends the collection.
\<close>

function frames_loop :: "(string \<Rightarrow> real option) \<Rightarrow> text_file \<Rightarrow> error + frame list" where
  "frames_loop float fh =
     (if fst (readline fh) = [] then Inr []
      else if \<not> py_isdigit (py_strip (fst (readline fh))) then frames_loop float (snd (readline fh))
      else
        (case read_atoms float (nat (py_int (py_strip (fst (readline fh)))))
                (snd (readline (snd (readline fh)))) of
           Inl e \<Rightarrow> Inl e
         | Inr (frame, fh') \<Rightarrow>
             (case frames_loop float fh' of
                Inl e \<Rightarrow> Inl e
              | Inr frames \<Rightarrow> Inr (frame # frames))))"
  by pat_completeness auto
termination
proof (relation "measure (\<lambda>(float, fh). length fh)")
  show "wf (measure (\<lambda>(float, fh). length fh))" by simp
next
  fix float :: "string \<Rightarrow> real option" and fh :: text_file
  assume "fst (readline fh) \<noteq> []"
  then show "((float, snd (readline fh)), (float, fh)) \<in> measure (\<lambda>(float, fh). length fh)"
    using readline_nonempty[of fh] by simp
next
  fix float :: "string \<Rightarrow> real option" and fh :: text_file and x2 x y
  assume ne: "fst (readline fh) \<noteq> []"
    and r: "read_atoms float (nat (py_int (py_strip (fst (readline fh)))))
              (snd (readline (snd (readline fh)))) = Inr x2"
    and x: "(x, y) = x2"
  have "length y \<le> length (snd (readline (snd (readline fh))))"
    using read_atoms_length[of float _ _ x y] r x by simp
  also have "\<dots> \<le> length (snd (readline fh))" by (rule readline_length)
  also have "\<dots> < length fh" using readline_nonempty[OF ne] .
  finally show "((float, y), (float, fh)) \<in> measure (\<lambda>(float, fh). length fh)" by simp
qed

declare frames_loop.simps [simp del]

definition frames_from_xyz ::
  "(string \<Rightarrow> real option) \<Rightarrow> filesystem \<Rightarrow> string \<Rightarrow> error + frame list" where
  "frames_from_xyz float fs fname =
     (case fs fname of None \<Rightarrow> Inl FileNotFoundError | Some fh \<Rightarrow> frames_loop float fh)"

subsection \<open>Signal reader: \<open>load_ne_sequence\<close>\<close>

text \<open>The loop over the tokens of a line: \<open>try: floats.append(float(tok))\<close>.\<close>

fun ne_tok_loop :: "(string \<Rightarrow> 'v option) \<Rightarrow> string list \<Rightarrow> 'v list \<Rightarrow> 'v list" where
  "ne_tok_loop float [] floats = floats"
| "ne_tok_loop float (tok # parts) floats =
     (case float tok of
        Some val \<Rightarrow> ne_tok_loop float parts (floats @ [val])
      | None \<Rightarrow> ne_tok_loop float parts floats)"

text \<open>The loop \<open>for line in f\<close> with the two result lists.\<close>

fun ne_line_loop ::
  "(string \<Rightarrow> 'v option) \<Rightarrow> text_file \<Rightarrow> 'v list \<Rightarrow> 'v list \<Rightarrow> 'v list \<times> 'v list" where
  "ne_line_loop float [] times' nes = (times', nes)"
| "ne_line_loop float (line # f) times' nes =
     (if \<not> py_in ''INFOLINE'' line then ne_line_loop float f times' nes
      else
        (let floats = ne_tok_loop float (py_split line) [] in
         if length floats \<ge> 2
         then ne_line_loop float f (times' @ [floats ! 0]) (nes @ [floats ! 1])
         else ne_line_loop float f times' nes))"

definition load_ne_sequence ::
  "(string \<Rightarrow> 'v option) \<Rightarrow> filesystem \<Rightarrow> string \<Rightarrow> error + ('v list \<times> 'v list)" where
  "load_ne_sequence float fs monitor_path =
     (case fs monitor_path of
        None \<Rightarrow> Inl FileNotFoundError
      | Some f \<Rightarrow> Inr (ne_line_loop float f [] []))"

text \<open>
  The signal reader in the words of the spec: a marker line gives the sample made of its
  first two numeric tokens, any other line gives nothing.
\<close>

definition spec_line_sample :: "(string \<Rightarrow> 'v option) \<Rightarrow> string \<Rightarrow> ('v \<times> 'v) option" where
  "spec_line_sample float line =
     (if py_in ''INFOLINE'' line then
        (case List.map_filter float (py_split line) of
           t # v # rest \<Rightarrow> Some (t, v)
         | _ \<Rightarrow> None)
      else None)"

definition spec_samples :: "(string \<Rightarrow> 'v option) \<Rightarrow> text_file \<Rightarrow> ('v \<times> 'v) list" where
  "spec_samples float f = List.map_filter (spec_line_sample float) f"

subsection \<open>Trajectory orchestrator: \<open>ch_intervals_for_traj\<close>\<close>

text \<open>
  The scan of lines 157 to 160 for the first electron count below the threshold:
  \<open>for t_fs, ne in zip(times_ne_fs, nes_all): if ne < ne_threshold: ...; break\<close>.
\<close>

fun first_below :: "('t \<times> 'a::ord) list \<Rightarrow> 'a \<Rightarrow> 't option" where
  "first_below [] ne_threshold = None"
| "first_below ((t_fs, ne) # rest) ne_threshold =
     (if ne < ne_threshold then Some t_fs else first_below rest ne_threshold)"

definition ionization_time :: "'t list \<Rightarrow> 'a::ord list \<Rightarrow> 'a \<Rightarrow> 't option" where
  "ionization_time times_ne_fs nes_all ne_threshold =
     first_below (zip times_ne_fs nes_all) ne_threshold"

definition dist2 :: "real list \<Rightarrow> real list \<Rightarrow> error + real" where
  "dist2 a b =
     (case (py_getitem a 0, py_getitem b 0, py_getitem a 1, py_getitem b 1,
            py_getitem a 2, py_getitem b 2) of
        (Inr a0, Inr b0, Inr a1, Inr b1, Inr a2, Inr b2) \<Rightarrow>
          Inr ((a0 - b0)\<^sup>2 + (a1 - b1)\<^sup>2 + (a2 - b2)\<^sup>2)
      | _ \<Rightarrow> Inl IndexError)"

text \<open>The distance series of one pair: the loop \<open>for frame in frames\<close> of lines 180 to 184.\<close>

fun pair_seq :: "frame list \<Rightarrow> int \<Rightarrow> int \<Rightarrow> error + real list" where
  "pair_seq [] ci hi = Inr []"
| "pair_seq (frame # frames) ci hi =
     (let coords = map snd frame in
      case py_getitem coords ci of
        Inl e \<Rightarrow> Inl e
      | Inr a \<Rightarrow>
          (case py_getitem coords hi of
             Inl e \<Rightarrow> Inl e
           | Inr b \<Rightarrow>
               (case dist2 a b of
                  Inl e \<Rightarrow> Inl e
                | Inr d \<Rightarrow>
                    (case pair_seq frames ci hi of
                       Inl e \<Rightarrow> Inl e
                     | Inr seq \<Rightarrow> Inr (sqrt d # seq)))))"

type_synonym timed_interval = "int \<times> int \<times> real \<times> real \<times> real"

text \<open>The loop over \<open>raw_intervals\<close> of lines 191 to 198.\<close>

fun enrich :: "real list \<Rightarrow> (int \<times> int) list \<Rightarrow> error + timed_interval list" where
  "enrich times_geom_fs [] = Inr []"
| "enrich times_geom_fs ((start_idx, end_idx) # raw) =
     (case py_getitem times_geom_fs start_idx of
        Inl e \<Rightarrow> Inl e
      | Inr t_start_fs \<Rightarrow>
          (case py_getitem times_geom_fs end_idx of
             Inl e \<Rightarrow> Inl e
           | Inr t_end_fs \<Rightarrow>
               (case enrich times_geom_fs raw of
                  Inl e \<Rightarrow> Inl e
                | Inr enriched \<Rightarrow>
                    Inr ((start_idx, end_idx, t_start_fs, t_end_fs, t_end_fs - t_start_fs) # enriched))))"

type_synonym pair_map = "int \<times> int \<rightharpoonup> timed_interval list"

text \<open>The loops \<open>for hi in h_idx\<close> and \<open>for ci in c_idx\<close> of lines 178 to 200.\<close>

fun h_loop ::
  "frame list \<Rightarrow> real list \<Rightarrow> real \<Rightarrow> int \<Rightarrow> int \<Rightarrow> int list \<Rightarrow> pair_map \<Rightarrow> error + pair_map" where
  "h_loop frames times_geom_fs r_cut min_len_frames ci [] pair_intervals = Inr pair_intervals"
| "h_loop frames times_geom_fs r_cut min_len_frames ci (hi # h_rest) pair_intervals =
     (case pair_seq frames ci hi of
        Inl e \<Rightarrow> Inl e
      | Inr seq \<Rightarrow>
          (let raw_intervals = find_intervals seq r_cut min_len_frames in
           if raw_intervals = []
           then h_loop frames times_geom_fs r_cut min_len_frames ci h_rest pair_intervals
           else
             (case enrich times_geom_fs raw_intervals of
                Inl e \<Rightarrow> Inl e
              | Inr enriched \<Rightarrow>
                  h_loop frames times_geom_fs r_cut min_len_frames ci h_rest
                    (pair_intervals((ci, hi) \<mapsto> enriched)))))"

fun c_loop ::
  "frame list \<Rightarrow> real list \<Rightarrow> real \<Rightarrow> int \<Rightarrow> int list \<Rightarrow> int list \<Rightarrow> pair_map \<Rightarrow> error + pair_map" where
  "c_loop frames times_geom_fs r_cut min_len_frames [] h_idx pair_intervals = Inr pair_intervals"
| "c_loop frames times_geom_fs r_cut min_len_frames (ci # c_rest) h_idx pair_intervals =
     (case h_loop frames times_geom_fs r_cut min_len_frames ci h_idx pair_intervals of
        Inl e \<Rightarrow> Inl e
      | Inr pair_intervals' \<Rightarrow>
          c_loop frames times_geom_fs r_cut min_len_frames c_rest h_idx pair_intervals')"

text \<open>\<open>[i for i, el in enumerate(elems) if el.upper() == label]\<close>.\<close>

definition label_idx :: "string \<Rightarrow> string list \<Rightarrow> int list" where
  "label_idx label elems =
     map fst (filter (\<lambda>(i, el). py_upper el = label) (enumerate_from0 elems))"

text \<open>
  The pair analysis of a trajectory that has been read (lines 151 and 163 to 200):
  the mapping from a pair to its intervals with their times.
\<close>

definition pair_analyzer :: "frame list \<Rightarrow> real \<Rightarrow> int \<Rightarrow> real \<Rightarrow> error + pair_map" where
  "pair_analyzer frames r_cut min_len_frames traj_dt_fs =
     (let times_geom_fs = map (\<lambda>i. real_of_int i * traj_dt_fs) (map int [0..<length frames]) in
      case py_getitem frames 0 of
        Inl e \<Rightarrow> Inl e
      | Inr first_frame \<Rightarrow>
          (let elems = map fst first_frame;
               c_idx = label_idx ''C'' elems;
               h_idx = label_idx ''H'' elems
           in if c_idx = [] \<or> h_idx = [] then Inr Map.empty
              else c_loop frames times_geom_fs r_cut min_len_frames c_idx h_idx Map.empty))"

text \<open>The ionization time of lines 154 to 160.\<close>

definition ionization_locator ::
  "(string \<Rightarrow> real option) \<Rightarrow> filesystem \<Rightarrow> string option \<Rightarrow> real \<Rightarrow> error + real option" where
  "ionization_locator float fs monitor_path ne_threshold =
     (case monitor_path of
        None \<Rightarrow> Inr None
      | Some path \<Rightarrow>
          (if is_file fs path then
             (case load_ne_sequence float fs path of
                Inl e \<Rightarrow> Inl e
              | Inr (times_ne_fs, nes_all) \<Rightarrow> Inr (ionization_time times_ne_fs nes_all ne_threshold))
           else Inr None))"

record report =
  pair_intervals :: pair_map
  t_ion_fs :: "real option"
  n_frames :: int

definition ch_intervals_for_traj ::
  "(string \<Rightarrow> real option) \<Rightarrow> filesystem \<Rightarrow> string \<Rightarrow> string option \<Rightarrow>
   real \<Rightarrow> int \<Rightarrow> real \<Rightarrow> real \<Rightarrow> error + report" where
  "ch_intervals_for_traj float fs traj_path monitor_path r_cut min_len_frames ne_threshold traj_dt_fs =
     (case frames_from_xyz float fs traj_path of
        Inl e \<Rightarrow> Inl e
      | Inr frames \<Rightarrow>
          (if int (length frames) = 0
           then Inr \<lparr>pair_intervals = Map.empty, t_ion_fs = None, n_frames = 0\<rparr>
           else
             (case ionization_locator float fs monitor_path ne_threshold of
                Inl e \<Rightarrow> Inl e
              | Inr t_ion \<Rightarrow>
                  (case pair_analyzer frames r_cut min_len_frames traj_dt_fs of
                     Inl e \<Rightarrow> Inl e
                   | Inr pairs \<Rightarrow>
                       Inr \<lparr>pair_intervals = pairs, t_ion_fs = t_ion,
                            n_frames = int (length frames)\<rparr>))))"

subsection \<open>Predicates used in the statements\<close>

text \<open>
  The loop invariant of the segmenter, over the prefix \<open>xs\<close> of the sequence that has
  been consumed: every emitted interval is a closed run (inside the prefix, long enough,
  all values at most the cutoff, and followed by a value that is not), the emitted
  intervals are separated, and an open run reaches from its start to the end of the
  prefix.
\<close>

definition closed_run :: "'a::ord \<Rightarrow> int \<Rightarrow> 'a list \<Rightarrow> int \<times> int \<Rightarrow> bool" where
  "closed_run c m xs iv =
     (0 \<le> fst iv \<and> fst iv \<le> snd iv \<and> snd iv + 1 < int (length xs) \<and> m \<le> snd iv - fst iv + 1 \<and>
      (\<forall>k. fst iv \<le> k \<and> k \<le> snd iv \<longrightarrow> xs ! nat k \<le> c) \<and> \<not> xs ! nat (snd iv + 1) \<le> c)"

definition open_run :: "'a::ord \<Rightarrow> 'a list \<Rightarrow> (int \<times> int) list \<Rightarrow> int option \<Rightarrow> bool" where
  "open_run c xs ivs st =
     (case st of None \<Rightarrow> True
      | Some s \<Rightarrow> 0 \<le> s \<and> s < int (length xs) \<and> (\<forall>k. s \<le> k \<and> k < int (length xs) \<longrightarrow> xs ! nat k \<le> c) \<and>
          (\<forall>iv \<in> set ivs. snd iv + 1 < s))"

definition fi_inv :: "'a::ord \<Rightarrow> int \<Rightarrow> 'a list \<Rightarrow> (int \<times> int) list \<Rightarrow> int option \<Rightarrow> bool" where
  "fi_inv c m xs ivs st =
     ((\<forall>iv \<in> set ivs. closed_run c m xs iv) \<and> sorted_wrt (\<lambda>a b. snd a + 1 < fst b) ivs \<and> open_run c xs ivs st)"

text \<open>A line of a text file: its characters and the line feed.\<close>

definition text_line :: "string \<Rightarrow> string" where
  "text_line s = s @ [CHR 0x0A]"

text \<open>
  A file ends in the middle of a frame: after skipped lines and complete frames comes an
  atom-count line that is followed (after its comment line) by fewer lines than the
  count it declares.
\<close>

inductive ends_mid_frame :: "(string \<Rightarrow> real option) \<Rightarrow> text_file \<Rightarrow> bool"
  for float :: "string \<Rightarrow> real option" where
  truncated:
    "py_isdigit (py_strip l) \<Longrightarrow> length (snd (readline rest)) < nat (py_int (py_strip l)) \<Longrightarrow>
     ends_mid_frame float (l # rest)"
| skipped:
    "l \<noteq> [] \<Longrightarrow> \<not> py_isdigit (py_strip l) \<Longrightarrow> ends_mid_frame float rest \<Longrightarrow>
     ends_mid_frame float (l # rest)"
| later:
    "py_isdigit (py_strip l) \<Longrightarrow>
     read_atoms float (nat (py_int (py_strip l))) (snd (readline rest)) = Inr (frame, fh') \<Longrightarrow>
     ends_mid_frame float fh' \<Longrightarrow> ends_mid_frame float (l # rest)"

text \<open>
  The times of an interval in the words of the spec: time is index times time step, the
  duration is end time minus start time. \<open>geom_times\<close> is the list \<open>times_geom_fs\<close>
  of line 151, and \<open>pair_entry\<close> is what the pair loops store for one pair.
\<close>

definition timed :: "real \<Rightarrow> int \<times> int \<Rightarrow> timed_interval" where
  "timed traj_dt_fs iv =
     (fst iv, snd iv, real_of_int (fst iv) * traj_dt_fs, real_of_int (snd iv) * traj_dt_fs,
      real_of_int (snd iv) * traj_dt_fs - real_of_int (fst iv) * traj_dt_fs)"

definition geom_times :: "nat \<Rightarrow> real \<Rightarrow> real list" where
  "geom_times n traj_dt_fs = map (\<lambda>i. real_of_int i * traj_dt_fs) (map int [0..<n])"

definition pair_entry :: "frame list \<Rightarrow> real \<Rightarrow> int \<Rightarrow> real \<Rightarrow> int \<Rightarrow> int \<Rightarrow> timed_interval list option" where
  "pair_entry frames r_cut m dt ci hi =
     (case pair_seq frames ci hi of
        Inl e \<Rightarrow> None
      | Inr seq \<Rightarrow>
          (if find_intervals seq r_cut m = [] then None
           else Some (map (timed dt) (find_intervals seq r_cut m))))"

text \<open>
  Frame 0 labels atom \<open>i\<close> as carbon, or as hydrogen, whatever the case of the label.
  A trajectory is well formed when every frame has the atoms of frame 0 and every atom
  has three coordinates.
\<close>

definition carbon_at :: "frame \<Rightarrow> int \<Rightarrow> bool" where
  "carbon_at first_frame i =
     (0 \<le> i \<and> i < int (length first_frame) \<and>
      (fst (first_frame ! nat i) = ''C'' \<or> fst (first_frame ! nat i) = ''c''))"

definition hydrogen_at :: "frame \<Rightarrow> int \<Rightarrow> bool" where
  "hydrogen_at first_frame i =
     (0 \<le> i \<and> i < int (length first_frame) \<and>
      (fst (first_frame ! nat i) = ''H'' \<or> fst (first_frame ! nat i) = ''h''))"

definition well_formed_trajectory :: "frame list \<Rightarrow> bool" where
  "well_formed_trajectory frames =
     list_all (\<lambda>frame. length frame = length (hd frames) \<and>
                        list_all (\<lambda>atom. length (snd atom) = 3) frame) frames"

text \<open>
  A frame for examples: a carbon at the origin, a hydrogen (labelled in lower case) at
  distance \<open>x\<close> on the first axis, and an oxygen.
\<close>

definition example_frame :: "real \<Rightarrow> frame" where
  "example_frame x = [(''C'', [0, 0, 0]), (''h'', [x, 0, 0]), (''O'', [0, 0, 9])]"

section \<open>Properties of the interval segmenter\<close>

lemma closed_run_snoc: "closed_run c m xs iv \<Longrightarrow> closed_run c m (xs @ [r]) iv"
  unfolding closed_run_def
  by (auto simp: nth_append)

lemma fi_inv_step_le:
  assumes "fi_inv c m xs ivs st" "r \<le> c"
  shows "fi_inv c m (xs @ [r]) ivs (Some (case st of None \<Rightarrow> int (length xs) | Some s \<Rightarrow> s))"
proof -
  have cl: "\<forall>iv \<in> set ivs. closed_run c m (xs @ [r]) iv"
    using assms(1) by (simp add: fi_inv_def closed_run_snoc)
  have so: "sorted_wrt (\<lambda>a b. snd a + 1 < fst b) ivs"
    using assms(1) by (simp add: fi_inv_def)
  have op: "open_run c (xs @ [r]) ivs (Some (case st of None \<Rightarrow> int (length xs) | Some s \<Rightarrow> s))"
  proof (cases st)
    case None
    have "\<forall>iv \<in> set ivs. snd iv + 1 < int (length xs)"
      using assms(1) by (simp add: fi_inv_def closed_run_def)
    moreover have "\<forall>k. int (length xs) \<le> k \<and> k < int (length xs) + 1 \<longrightarrow> (xs @ [r]) ! nat k \<le> c"
      using assms(2) by (auto simp: nth_append)
    ultimately show ?thesis using None by (simp add: open_run_def)
  next
    case (Some s)
    then have o: "0 \<le> s" "s < int (length xs)" "\<forall>k. s \<le> k \<and> k < int (length xs) \<longrightarrow> xs ! nat k \<le> c"
      "\<forall>iv \<in> set ivs. snd iv + 1 < s"
      using assms(1) by (simp_all add: fi_inv_def open_run_def)
    have "\<forall>k. s \<le> k \<and> k < int (length xs) + 1 \<longrightarrow> (xs @ [r]) ! nat k \<le> c"
    proof (intro allI impI)
      fix k assume k: "s \<le> k \<and> k < int (length xs) + 1"
      show "(xs @ [r]) ! nat k \<le> c"
      proof (cases "k < int (length xs)")
        case True
        then have "nat k < length xs" using k o(1) by linarith
        then have "(xs @ [r]) ! nat k = xs ! nat k" by (simp add: nth_append)
        then show ?thesis using o(3) k True by simp
      next
        case False
        then have "nat k = length xs" using k by linarith
        then show ?thesis using assms(2) by simp
      qed
    qed
    then show ?thesis using Some o by (simp add: open_run_def)
  qed
  show ?thesis using cl so op by (simp add: fi_inv_def)
qed

lemma fi_inv_step_gt_None:
  assumes "fi_inv c m xs ivs st"
  shows "fi_inv c m (xs @ [r]) ivs None"
  using assms by (simp add: fi_inv_def closed_run_snoc open_run_def)

lemma fi_inv_step_gt_emit:
  assumes "fi_inv c m xs ivs (Some s)" "\<not> r \<le> c" "m \<le> int (length xs) - 1 - s + 1"
  shows "fi_inv c m (xs @ [r]) (ivs @ [(s, int (length xs) - 1)]) None"
proof -
  have o: "0 \<le> s" "s < int (length xs)" "\<forall>k. s \<le> k \<and> k < int (length xs) \<longrightarrow> xs ! nat k \<le> c"
      "\<forall>iv \<in> set ivs. snd iv + 1 < s"
    using assms(1) by (simp_all add: fi_inv_def open_run_def)
  have "\<forall>k. s \<le> k \<and> k \<le> int (length xs) - 1 \<longrightarrow> (xs @ [r]) ! nat k \<le> c"
  proof (intro allI impI)
    fix k assume k: "s \<le> k \<and> k \<le> int (length xs) - 1"
    then have "nat k < length xs" using o(1) by linarith
    then have "(xs @ [r]) ! nat k = xs ! nat k" by (simp add: nth_append)
    then show "(xs @ [r]) ! nat k \<le> c" using o(3) k by simp
  qed
  moreover have "(xs @ [r]) ! nat (int (length xs) - 1 + 1) = r" by simp
  ultimately have new: "closed_run c m (xs @ [r]) (s, int (length xs) - 1)"
    using o assms(2,3) unfolding closed_run_def by simp
  have cl: "\<forall>iv \<in> set ivs. closed_run c m (xs @ [r]) iv"
    using assms(1) by (simp add: fi_inv_def closed_run_snoc)
  have so: "sorted_wrt (\<lambda>a b. snd a + 1 < fst b) (ivs @ [(s, int (length xs) - 1)])"
    using assms(1) o(4) by (simp add: fi_inv_def sorted_wrt_append)
  show ?thesis using new cl so by (simp add: fi_inv_def open_run_def)
qed

lemma fi_inv_loop:
  assumes "fi_inv c m xs ivs st"
    and "find_intervals_loop c m (int (length xs)) rs ivs st = (ivs', st')"
  shows "fi_inv c m (xs @ rs) ivs' st'"
  using assms
proof (induction rs arbitrary: xs ivs st)
  case Nil
  then show ?case by simp
next
  case (Cons r rs)
  have len: "int (length xs) + 1 = int (length (xs @ [r]))" by simp
  show ?case
  proof (cases "r \<le> c")
    case True
    have "find_intervals_loop c m (int (length (xs @ [r]))) rs ivs
            (Some (case st of None \<Rightarrow> int (length xs) | Some s \<Rightarrow> s)) = (ivs', st')"
      using Cons.prems(2) True unfolding len[symmetric] by (simp split: option.splits)
    from Cons.IH[OF fi_inv_step_le[OF Cons.prems(1) True] this]
    show ?thesis by simp
  next
    case False
    show ?thesis
    proof (cases st)
      case None
      have "find_intervals_loop c m (int (length (xs @ [r]))) rs ivs None = (ivs', st')"
        using Cons.prems(2) False None unfolding len[symmetric] by simp
      from Cons.IH[OF fi_inv_step_gt_None[OF Cons.prems(1)] this]
      show ?thesis by simp
    next
      case (Some s)
      show ?thesis
      proof (cases "m \<le> int (length xs) - 1 - s + 1")
        case True
        have "find_intervals_loop c m (int (length (xs @ [r]))) rs (ivs @ [(s, int (length xs) - 1)]) None = (ivs', st')"
          using Cons.prems(2) False Some True unfolding len[symmetric] by (simp add: Let_def)
        from Cons.IH[OF fi_inv_step_gt_emit[OF _ False True] this] Cons.prems(1) Some
        show ?thesis by simp
      next
        case F: False
        have "find_intervals_loop c m (int (length (xs @ [r]))) rs ivs None = (ivs', st')"
          using Cons.prems(2) False Some F unfolding len[symmetric] by (simp add: Let_def)
        from Cons.IH[OF fi_inv_step_gt_None[OF Cons.prems(1)] this]
        show ?thesis by simp
      qed
    qed
  qed
qed

lemma fi_inv_init: "fi_inv c m [] [] None"
  by (simp add: fi_inv_def open_run_def)

lemma find_intervals_cases:
  obtains ivs where "find_intervals_loop c m 0 seq [] None = (ivs, None)" "find_intervals seq c m = ivs"
      "fi_inv c m seq ivs None"
  | ivs s where "find_intervals_loop c m 0 seq [] None = (ivs, Some s)" "fi_inv c m seq ivs (Some s)"
      "m \<le> int (length seq) - 1 - s + 1" "find_intervals seq c m = ivs @ [(s, int (length seq) - 1)]"
  | ivs s where "find_intervals_loop c m 0 seq [] None = (ivs, Some s)" "fi_inv c m seq ivs (Some s)"
      "\<not> m \<le> int (length seq) - 1 - s + 1" "find_intervals seq c m = ivs"
proof -
  obtain ivs st where r: "find_intervals_loop c m 0 seq [] None = (ivs, st)"
    by (cases "find_intervals_loop c m 0 seq [] None") auto
  have "find_intervals_loop c m (int (length ([]::'a list))) seq [] None = (ivs, st)"
    using r by simp
  from fi_inv_loop[OF fi_inv_init this] have inv: "fi_inv c m seq ivs st" by simp
  show thesis
  proof (cases st)
    case None
    then show ?thesis using that(1) r inv by (simp add: find_intervals_def)
  next
    case (Some s)
    show ?thesis
    proof (cases "m \<le> int (length seq) - 1 - s + 1")
      case True
      then show ?thesis using that(2)[of ivs s] r inv Some by (simp add: find_intervals_def Let_def)
    next
      case False
      then show ?thesis using that(3)[of ivs s] r inv Some by (simp add: find_intervals_def Let_def)
    qed
  qed
qed

lemma closed_run_member:
  assumes "closed_run c m seq iv"
  shows "0 \<le> fst iv \<and> fst iv \<le> snd iv \<and> snd iv < int (length seq) \<and> m \<le> snd iv - fst iv + 1 \<and>
     (\<forall>k. fst iv \<le> k \<and> k \<le> snd iv \<longrightarrow> seq ! nat k \<le> c)"
  using assms unfolding closed_run_def by simp

lemma find_intervals_member:
  assumes "iv \<in> set (find_intervals seq c m)"
  shows "0 \<le> fst iv \<and> fst iv \<le> snd iv \<and> snd iv < int (length seq) \<and> m \<le> snd iv - fst iv + 1 \<and>
     (\<forall>k. fst iv \<le> k \<and> k \<le> snd iv \<longrightarrow> seq ! nat k \<le> c)"
proof (cases rule: find_intervals_cases[of c m seq])
  case (1 ivs)
  then show ?thesis using assms closed_run_member[of c m seq iv] by (simp add: fi_inv_def)
next
  case (2 ivs s)
  show ?thesis
  proof (cases "iv \<in> set ivs")
    case True
    then show ?thesis using 2 closed_run_member[of c m seq iv] by (simp add: fi_inv_def)
  next
    case False
    then have "iv = (s, int (length seq) - 1)" using assms 2 by simp
    then show ?thesis using 2(2,3) by (simp add: fi_inv_def open_run_def)
  qed
next
  case (3 ivs s)
  then show ?thesis using assms closed_run_member[of c m seq iv] by (simp add: fi_inv_def)
qed

lemma sorted_wrt_closed:
  assumes "\<forall>iv \<in> set ivs. closed_run c m seq iv" "sorted_wrt (\<lambda>a b. snd a + 1 < fst b) ivs"
  shows "sorted_wrt (\<lambda>a b. snd a + 1 < fst b \<and> \<not> seq ! nat (snd a + 1) \<le> c) ivs"
  using assms by (induction ivs) (auto simp: closed_run_def)

lemma separated_find_intervals:
  "sorted_wrt (\<lambda>a b. snd a + 1 < fst b \<and> \<not> seq ! nat (snd a + 1) \<le> c) (find_intervals seq c m)"
proof (cases rule: find_intervals_cases[of c m seq])
  case (1 ivs)
  then show ?thesis using sorted_wrt_closed[of ivs c m seq] by (simp add: fi_inv_def)
next
  case (2 ivs s)
  have a: "sorted_wrt (\<lambda>a b. snd a + 1 < fst b \<and> \<not> seq ! nat (snd a + 1) \<le> c) ivs"
    using 2 sorted_wrt_closed[of ivs c m seq] by (simp add: fi_inv_def)
  have b: "\<forall>iv \<in> set ivs. snd iv + 1 < s \<and> \<not> seq ! nat (snd iv + 1) \<le> c"
    using 2(2) by (simp add: fi_inv_def open_run_def closed_run_def)
  show ?thesis using a b 2(4) by (simp add: sorted_wrt_append)
next
  case (3 ivs s)
  then show ?thesis using sorted_wrt_closed[of ivs c m seq] by (simp add: fi_inv_def)
qed

lemma loop_all_le:
  assumes "\<forall>x \<in> set xs. x \<le> c" "xs \<noteq> []"
  shows "find_intervals_loop c m i xs ivs st = (ivs, Some (case st of None \<Rightarrow> i | Some s \<Rightarrow> s))"
  using assms
proof (induction xs arbitrary: i st)
  case Nil
  then show ?case by simp
next
  case (Cons x xs)
  show ?case
  proof (cases "xs = []")
    case True
    then show ?thesis using Cons.prems by (simp split: option.splits)
  next
    case False
    then show ?thesis using Cons.prems Cons.IH[OF _ False] by (simp split: option.splits)
  qed
qed

lemma find_intervals_all_le:
  assumes "\<forall>x \<in> set xs. x \<le> c" "xs \<noteq> []" "m \<le> int (length xs)"
  shows "find_intervals xs c m = [(0, int (length xs) - 1)]"
  using assms loop_all_le[OF assms(1,2), of m 0 "[]" None]
  by (simp add: find_intervals_def Let_def)

lemma slice_incl_props:
  assumes "0 \<le> s" "s \<le> e" "e < int (length seq)"
  shows "length (slice_incl seq s e) = nat (e + 1 - s)"
    and "j < nat (e + 1 - s) \<Longrightarrow> slice_incl seq s e ! j = seq ! nat (s + int j)"
proof -
  show "length (slice_incl seq s e) = nat (e + 1 - s)"
    using assms by (simp add: slice_incl_def)
  assume "j < nat (e + 1 - s)"
  then show "slice_incl seq s e ! j = seq ! nat (s + int j)"
    using assms by (simp add: slice_incl_def nat_add_distrib)
qed

text \<open>
  Claim C1. Every interval \<open>(start, end)\<close> that \<open>find_intervals\<close> emits satisfies
  \<open>end \<ge> start\<close>, has length \<open>end - start + 1\<close> at least the minimum run length, and
  every value at an index from \<open>start\<close> to \<open>end\<close> is at most the cutoff. The indices
  lie inside the sequence.
\<close>

theorem find_intervals_sound:
  assumes "(s, e) \<in> set (find_intervals seq cutoff min_len_frames)"
  shows "e \<ge> s \<and> e - s + 1 \<ge> min_len_frames \<and> 0 \<le> s \<and> e < int (length seq) \<and>
         (\<forall>k. s \<le> k \<and> k \<le> e \<longrightarrow> seq ! nat k \<le> cutoff)"
  using find_intervals_member[OF assms] by simp

theorem find_intervals_sound_witness:
  "(0, 1) \<in> set (find_intervals [18/10, 19/10, 21/10, 17/10, 16/10 :: real] 2 1) \<and>
   (1::int) \<ge> 0 \<and> (1::int) - 0 + 1 \<ge> 1 \<and>
   [18/10, 19/10, 21/10, 17/10, 16/10 :: real] ! nat 0 \<le> 2 \<and>
   [18/10, 19/10, 21/10, 17/10, 16/10 :: real] ! nat 1 \<le> 2"
proof -
  have m: "(0, 1) \<in> set (find_intervals [18/10, 19/10, 21/10, 17/10, 16/10 :: real] 2 1)"
    by (simp add: find_intervals_def)
  from find_intervals_sound[OF m] show ?thesis using m by simp
qed

lemma separated_runs_exceed:
  fixes seq :: "'a::linorder list"
  assumes "i < j" "j < length (find_intervals seq cutoff min_len_frames)"
    and "find_intervals seq cutoff min_len_frames ! i = (s1, e1)"
    and "find_intervals seq cutoff min_len_frames ! j = (s2, e2)"
  shows "e1 + 1 < s2 \<and> (\<exists>k. e1 < k \<and> k < s2 \<and> cutoff < seq ! nat k)"
proof -
  have "e1 + 1 < s2 \<and> \<not> seq ! nat (e1 + 1) \<le> cutoff"
    using sorted_wrt_nth_less[OF separated_find_intervals[of seq cutoff min_len_frames] assms(1,2)] assms(3,4)
    by simp
  then have "e1 + 1 < s2" "e1 < e1 + 1 \<and> e1 + 1 < s2 \<and> cutoff < seq ! nat (e1 + 1)" by auto
  then show ?thesis by blast
qed

lemma py_value_compare:
  "Finite a \<le> Finite b \<longleftrightarrow> a \<le> b" "\<not> NaN \<le> y" "\<not> x \<le> NaN"
  "Finite a < Finite b \<longleftrightarrow> a < b" "\<not> NaN < y" "\<not> x < NaN"
  by (simp_all add: less_eq_py_value_def less_py_value_def split: py_value.splits)

lemma find_intervals_nan:
  "find_intervals [Finite 1, NaN, Finite 1] (Finite 2) 1 = [(0, 0), (2, 2)]"
  by (simp add: find_intervals_def py_value_compare)

text \<open>
  Claim C4, as amended. No two intervals emitted by \<open>find_intervals\<close> overlap or
  touch: of two emitted intervals the later one starts after the index that follows
  the end of the earlier one, and between them lies an index whose value is not at most
  the cutoff, that is, a value for which the test \<open>r <= cutoff\<close> of the scan fails.
  Stated for every value type; where the values are linearly ordered such a value
  exceeds the cutoff (\<open>separated_runs_exceed\<close>), a NaN does not.
\<close>

theorem find_intervals_separated_runs:
  fixes seq :: "'a::ord list"
  assumes "i < j" "j < length (find_intervals seq cutoff min_len_frames)"
    and "find_intervals seq cutoff min_len_frames ! i = (s1, e1)"
    and "find_intervals seq cutoff min_len_frames ! j = (s2, e2)"
  shows "e1 + 1 < s2 \<and> (\<exists>k. e1 < k \<and> k < s2 \<and> \<not> seq ! nat k \<le> cutoff)"
proof -
  have "e1 + 1 < s2 \<and> \<not> seq ! nat (e1 + 1) \<le> cutoff"
    using sorted_wrt_nth_less[OF separated_find_intervals[of seq cutoff min_len_frames] assms(1,2)] assms(3,4)
    by simp
  then have "e1 + 1 < s2" "e1 < e1 + 1 \<and> e1 + 1 < s2 \<and> \<not> seq ! nat (e1 + 1) \<le> cutoff" by auto
  then show ?thesis by blast
qed

text \<open>
  The claim as stated fails on a sequence with a NaN: the scan emits \<open>(0, 0)\<close> and
  \<open>(2, 2)\<close>, and the one value between them does not exceed the cutoff.
\<close>

theorem find_intervals_separated_runs_counterexample:
  "find_intervals [Finite 1, NaN, Finite 1] (Finite 2) 1 = [(0, 0), (2, 2)] \<and>
   \<not> (\<exists>k. (0::int) < k \<and> k < 2 \<and> Finite 2 < [Finite 1, NaN, Finite 1] ! nat k)"
proof -
  have "\<not> (\<exists>k. (0::int) < k \<and> k < 2 \<and> Finite 2 < [Finite 1, NaN, Finite 1] ! nat k)"
  proof
    assume "\<exists>k. (0::int) < k \<and> k < 2 \<and> Finite 2 < [Finite 1, NaN, Finite 1] ! nat k"
    then obtain k :: int where k: "0 < k" "k < 2" "Finite 2 < [Finite 1, NaN, Finite 1] ! nat k"
      by blast
    from k(1,2) have "k = 1" by linarith
    then show False using k(3) by (simp add: py_value_compare)
  qed
  then show ?thesis using find_intervals_nan by simp
qed

theorem find_intervals_separated_runs_witness:
  "find_intervals [Finite 1, NaN, Finite 1] (Finite 2) 1 ! 0 = (0, 0) \<and>
   find_intervals [Finite 1, NaN, Finite 1] (Finite 2) 1 ! 1 = (2, 2) \<and>
   (0::int) + 1 < 2 \<and>
   (\<exists>k. (0::int) < k \<and> k < 2 \<and> \<not> [Finite 1, NaN, Finite 1] ! nat k \<le> Finite 2) \<and>
   find_intervals [18/10, 19/10, 21/10, 17/10, 16/10 :: real] 2 1 ! 0 = (0, 1) \<and>
   find_intervals [18/10, 19/10, 21/10, 17/10, 16/10 :: real] 2 1 ! 1 = (3, 4) \<and>
   (\<exists>k. (1::int) < k \<and> k < 3 \<and> \<not> [18/10, 19/10, 21/10, 17/10, 16/10 :: real] ! nat k \<le> 2)"
proof -
  have a: "(0::nat) < 1" by simp
  have b: "1 < length (find_intervals [Finite 1, NaN, Finite 1] (Finite 2) 1)"
    using find_intervals_nan by simp
  have c: "find_intervals [Finite 1, NaN, Finite 1] (Finite 2) 1 ! 0 = (0, 0)"
    using find_intervals_nan by simp
  have d: "find_intervals [Finite 1, NaN, Finite 1] (Finite 2) 1 ! 1 = (2, 2)"
    using find_intervals_nan by simp
  have v: "find_intervals [18/10, 19/10, 21/10, 17/10, 16/10 :: real] 2 1 = [(0, 1), (3, 4)]"
    by (simp add: find_intervals_def)
  have b': "1 < length (find_intervals [18/10, 19/10, 21/10, 17/10, 16/10 :: real] 2 1)"
    using v by simp
  have c': "find_intervals [18/10, 19/10, 21/10, 17/10, 16/10 :: real] 2 1 ! 0 = (0, 1)"
    using v by simp
  have d': "find_intervals [18/10, 19/10, 21/10, 17/10, 16/10 :: real] 2 1 ! 1 = (3, 4)"
    using v by simp
  from find_intervals_separated_runs[OF a b c d] find_intervals_separated_runs[OF a b' c' d'] c d c' d'
  show ?thesis by simp
qed

text \<open>
  Claim C9. Running \<open>find_intervals\<close> with the same cutoff and minimum run length on
  the slice \<open>seq[start : end + 1]\<close> of an emitted interval \<open>(start, end)\<close> gives exactly
  the single interval \<open>(0, end - start)\<close>.
\<close>

theorem find_intervals_reslice:
  assumes "(s, e) \<in> set (find_intervals seq cutoff min_len_frames)"
  shows "find_intervals (slice_incl seq s e) cutoff min_len_frames = [(0, e - s)]"
proof -
  from find_intervals_member[OF assms]
  have p: "0 \<le> s" "s \<le> e" "e < int (length seq)" "min_len_frames \<le> e - s + 1"
    "\<forall>k. s \<le> k \<and> k \<le> e \<longrightarrow> seq ! nat k \<le> cutoff" by simp_all
  have len: "length (slice_incl seq s e) = nat (e + 1 - s)"
    by (rule slice_incl_props(1)[OF p(1,2,3)])
  have ne: "slice_incl seq s e \<noteq> []" using len p(2) by auto
  have "\<forall>x \<in> set (slice_incl seq s e). x \<le> cutoff"
  proof
    fix x assume "x \<in> set (slice_incl seq s e)"
    then obtain j where j: "j < nat (e + 1 - s)" "x = slice_incl seq s e ! j"
      using len by (metis in_set_conv_nth)
    then have "x = seq ! nat (s + int j)" using slice_incl_props(2)[OF p(1,2,3)] by simp
    moreover have "s \<le> s + int j \<and> s + int j \<le> e" using j(1) by linarith
    ultimately show "x \<le> cutoff" using p(5) by blast
  qed
  from find_intervals_all_le[OF this ne, of min_len_frames] len p(2,4)
  show ?thesis by simp
qed

theorem find_intervals_reslice_witness:
  "(3, 4) \<in> set (find_intervals [18/10, 19/10, 21/10, 17/10, 16/10 :: real] 2 1) \<and>
   find_intervals (slice_incl [18/10, 19/10, 21/10, 17/10, 16/10 :: real] 3 4) 2 1 = [(0, 4 - 3)]"
proof -
  have m: "(3, 4) \<in> set (find_intervals [18/10, 19/10, 21/10, 17/10, 16/10 :: real] 2 1)"
    by (simp add: find_intervals_def)
  from find_intervals_reslice[OF m] m show ?thesis by simp
qed

section \<open>Properties of the ionization locator\<close>

lemma first_below_None: "first_below ps thr = None \<longleftrightarrow> (\<forall>p \<in> set ps. \<not> snd p < thr)"
  by (induction ps thr rule: first_below.induct) auto

lemma first_below_Some:
  "i < length ps \<Longrightarrow> snd (ps ! i) < thr \<Longrightarrow> \<forall>j<i. \<not> snd (ps ! j) < thr \<Longrightarrow>
   first_below ps thr = Some (fst (ps ! i))"
proof (induction ps thr arbitrary: i rule: first_below.induct)
  case (1 ne_threshold)
  then show ?case by simp
next
  case (2 t_fs ne rest ne_threshold)
  show ?case
  proof (cases i)
    case 0
    then show ?thesis using 2 by simp
  next
    case (Suc k)
    have "\<not> ne < ne_threshold" using 2(4) Suc by force
    moreover have "first_below rest ne_threshold = Some (fst (rest ! k))"
    proof (rule 2(1))
      show "\<not> ne < ne_threshold" by fact
      show "k < length rest" using 2(2) Suc by simp
      show "snd (rest ! k) < ne_threshold" using 2(3) Suc by simp
      show "\<forall>j<k. \<not> snd (rest ! j) < ne_threshold"
      proof (intro allI impI)
        fix j assume "j < k"
        then have "Suc j < i" using Suc by simp
        then have "\<not> snd (((t_fs, ne) # rest) ! Suc j) < ne_threshold" using 2(4) by blast
        then show "\<not> snd (rest ! j) < ne_threshold" by simp
      qed
    qed
    ultimately show ?thesis using Suc by simp
  qed
qed

text \<open>
  Claim C3. For times and values of equal length, the ionization locator returns the time
  at the smallest index whose value is strictly below the threshold (the samples are
  scanned in the order given), and \<open>None\<close> when no value is below the threshold or
  the sequences are empty; the samples \<open>(0, 10.0), (100, 9.6), (200, 9.4)\<close> with
  threshold \<open>9.5\<close> give \<open>200\<close>.
\<close>

theorem ionization_time_first:
  assumes "length times_ne_fs = length nes_all"
  shows "(ionization_time times_ne_fs nes_all thr = None \<longleftrightarrow> (\<forall>i<length nes_all. \<not> nes_all ! i < thr)) \<and>
         (\<forall>i. i < length nes_all \<and> nes_all ! i < thr \<and> (\<forall>j<i. \<not> nes_all ! j < thr) \<longrightarrow>
              ionization_time times_ne_fs nes_all thr = Some (times_ne_fs ! i)) \<and>
         ionization_time [] [] thr = (None :: 't option) \<and>
         ionization_time [0, 100, 200 :: real] [10, 96/10, 94/10 :: real] (95/10) = Some 200"
proof -
  have a: "ionization_time times_ne_fs nes_all thr = None \<longleftrightarrow> (\<forall>i<length nes_all. \<not> nes_all ! i < thr)"
  proof -
    have "(\<forall>p \<in> set (zip times_ne_fs nes_all). \<not> snd p < thr) \<longleftrightarrow> (\<forall>i<length nes_all. \<not> nes_all ! i < thr)"
      using assms by (auto simp: set_zip) 
    then show ?thesis by (simp add: ionization_time_def first_below_None)
  qed
  have b: "\<forall>i. i < length nes_all \<and> nes_all ! i < thr \<and> (\<forall>j<i. \<not> nes_all ! j < thr) \<longrightarrow>
              ionization_time times_ne_fs nes_all thr = Some (times_ne_fs ! i)"
  proof (intro allI impI)
    fix i assume h: "i < length nes_all \<and> nes_all ! i < thr \<and> (\<forall>j<i. \<not> nes_all ! j < thr)"
    have "first_below (zip times_ne_fs nes_all) thr = Some (fst (zip times_ne_fs nes_all ! i))"
      using h assms by (intro first_below_Some) auto
    then show "ionization_time times_ne_fs nes_all thr = Some (times_ne_fs ! i)"
      using h assms by (simp add: ionization_time_def)
  qed
  have c: "ionization_time [] [] thr = (None :: 't option)" by (simp add: ionization_time_def)
  have d: "ionization_time [0, 100, 200 :: real] [10, 96/10, 94/10 :: real] (95/10) = Some 200"
    by (simp add: ionization_time_def)
  show ?thesis using a b c d by blast
qed

theorem ionization_time_first_witness:
  "length [0, 100, 200 :: real] = length [10, 96/10, 94/10 :: real] \<and>
   ionization_time [0, 100, 200 :: real] [10, 96/10, 94/10 :: real] (95/10) = Some ([0, 100, 200] ! 2) \<and>
   ionization_time [0, 100 :: real] [10, 96/10 :: real] (95/10) = None"
proof -
  have l: "length [0, 100, 200 :: real] = length [10, 96/10, 94/10 :: real]" by simp
  have l2: "length [0, 100 :: real] = length [10, 96/10 :: real]" by simp
  have i: "(2::nat) < length [10, 96/10, 94/10 :: real] \<and> [10, 96/10, 94/10 :: real] ! 2 < 95/10 \<and>
        (\<forall>j<2. \<not> [10, 96/10, 94/10 :: real] ! j < 95/10)"
    by (simp add: less_Suc_eq numeral_2_eq_2)
  have n: "\<forall>i<length [10, 96/10 :: real]. \<not> [10, 96/10 :: real] ! i < 95/10"
    by (simp add: less_Suc_eq numeral_2_eq_2)
  from ionization_time_first[OF l, of "95/10"] i
  have "ionization_time [0, 100, 200 :: real] [10, 96/10, 94/10 :: real] (95/10) = Some ([0, 100, 200] ! 2)"
    by blast
  moreover from ionization_time_first[OF l2, of "95/10"] n
  have "ionization_time [0, 100 :: real] [10, 96/10 :: real] (95/10) = None" by blast
  ultimately show ?thesis by simp
qed

section \<open>Properties of the signal reader\<close>

lemma ne_tok_loop_map_filter: "ne_tok_loop float parts floats = floats @ List.map_filter float parts"
  by (induction parts arbitrary: floats) (auto simp: List.map_filter_simps split: option.splits)

lemma line_sample_cases:
  "spec_line_sample float line =
     (if py_in ''INFOLINE'' line \<and> length (List.map_filter float (py_split line)) \<ge> 2
      then Some (List.map_filter float (py_split line) ! 0, List.map_filter float (py_split line) ! 1)
      else None)"
proof (cases "List.map_filter float (py_split line)")
  case Nil
  then show ?thesis by (simp add: spec_line_sample_def)
next
  case (Cons a as)
  then show ?thesis by (cases as) (simp_all add: spec_line_sample_def)
qed

lemma ne_line_loop_spec:
  "ne_line_loop float f ts ns =
     (ts @ map fst (spec_samples float f), ns @ map snd (spec_samples float f))"
proof (induction f arbitrary: ts ns)
  case Nil
  then show ?case by (simp add: spec_samples_def List.map_filter_simps)
next
  case (Cons line f)
  show ?case
  proof (cases "py_in ''INFOLINE'' line \<and> length (List.map_filter float (py_split line)) \<ge> 2")
    case True
    then have "spec_line_sample float line =
        Some (List.map_filter float (py_split line) ! 0, List.map_filter float (py_split line) ! 1)"
      by (simp add: line_sample_cases)
    then show ?thesis using True Cons.IH
      by (simp add: spec_samples_def List.map_filter_simps ne_tok_loop_map_filter Let_def)
  next
    case False
    then have "spec_line_sample float line = None"
      by (simp add: line_sample_cases)
    then show ?thesis using False Cons.IH
      by (auto simp: spec_samples_def List.map_filter_simps ne_tok_loop_map_filter Let_def)
  qed
qed

lemma float_dec_marker: "float_dec ''INFOLINE:'' = None"
  by (simp add: float_dec_def dec_sign_def dec_mantissa_def is_exp_char_def is_digit_def)

lemma float_dec_tok1: "float_dec ''3.9999900000000002E+002'' = Some (39999900000000002 / 100000000000000)"
  by (simp add: float_dec_def dec_sign_def dec_mantissa_def dec_exponent_def dec_isign_def
        is_exp_char_def is_digit_def py_isdigit_def py_int_def digit_val_def scale10_def)

lemma float_dec_tok2: "float_dec ''9.4880000371352313E+000'' = Some (94880000371352313 / 10000000000000000)"
  by (simp add: float_dec_def dec_sign_def dec_mantissa_def dec_exponent_def dec_isign_def
        is_exp_char_def is_digit_def py_isdigit_def py_int_def digit_val_def scale10_def)

lemma float_dec_tok3: "float_dec ''-5.97E+002'' = Some (- 597)"
  by (simp add: float_dec_def dec_sign_def dec_mantissa_def dec_exponent_def dec_isign_def
        is_exp_char_def is_digit_def py_isdigit_def py_int_def digit_val_def scale10_def)

lemma ne_line_loop_single:
  "ne_line_loop float [line] [] [] =
     (if py_in ''INFOLINE'' line \<and> length (List.map_filter float (py_split line)) \<ge> 2
      then ([List.map_filter float (py_split line) ! 0], [List.map_filter float (py_split line) ! 1])
      else ([], []))"
  by (simp add: ne_tok_loop_map_filter Let_def)

lemma split_example_line:
  "py_split (text_line ''INFOLINE:  3.9999900000000002E+002  9.4880000371352313E+000  -5.97E+002'') =
     [''INFOLINE:'', ''3.9999900000000002E+002'', ''9.4880000371352313E+000'', ''-5.97E+002'']"
  by (simp add: py_split_def is_space_def text_line_def)

lemma marker_example_line:
  "py_in ''INFOLINE'' (text_line ''INFOLINE:  3.9999900000000002E+002  9.4880000371352313E+000  -5.97E+002'')"
  by (simp add: text_line_def)

text \<open>
  Claim C6, as amended. The signal reader considers the lines that contain the marker,
  parses their whitespace-separated tokens from left to right, keeps those that
  \<open>float\<close> accepts, takes the first kept number as the time and the second as the
  value, ignores further numbers, and takes nothing from a line with fewer than two
  numbers or without the marker; it returns two lists of equal length in file order.
  The marker line with the tokens \<open>3.9999900000000002E+002\<close>,
  \<open>9.4880000371352313E+000\<close>, \<open>-5.97E+002\<close> gives the one sample whose time and value
  are the numbers the first two tokens denote, \<open>399.99900000000002\<close> and
  \<open>9.4880000371352313\<close>; the third token is ignored.
\<close>

theorem load_ne_sequence_samples:
  assumes "fs monitor_path = Some f"
  shows "load_ne_sequence float fs monitor_path =
           Inr (map fst (spec_samples float f), map snd (spec_samples float f)) \<and>
         (\<forall>ts ns. load_ne_sequence float fs monitor_path = Inr (ts, ns) \<longrightarrow> length ts = length ns) \<and>
         (\<forall>line t v rest. py_in ''INFOLINE'' line \<and> List.map_filter float (py_split line) = t # v # rest \<longrightarrow>
              ne_line_loop float [line] [] [] = ([t], [v])) \<and>
         (\<forall>line. py_in ''INFOLINE'' line \<and> length (List.map_filter float (py_split line)) < 2 \<longrightarrow>
              ne_line_loop float [line] [] [] = ([], [])) \<and>
         (\<forall>line. \<not> py_in ''INFOLINE'' line \<longrightarrow> ne_line_loop float [line] [] [] = ([], [])) \<and>
         load_ne_sequence float_dec
           [monitor_path \<mapsto> [text_line ''INFOLINE:  3.9999900000000002E+002  9.4880000371352313E+000  -5.97E+002'']]
           monitor_path =
           Inr ([39999900000000002 / 100000000000000], [94880000371352313 / 10000000000000000])"
proof -
  have a: "load_ne_sequence float fs monitor_path =
           Inr (map fst (spec_samples float f), map snd (spec_samples float f))"
    using assms by (simp add: load_ne_sequence_def ne_line_loop_spec)
  have b: "\<forall>ts ns. load_ne_sequence float fs monitor_path = Inr (ts, ns) \<longrightarrow> length ts = length ns"
    using a by auto
  have c: "\<forall>line t v rest. py_in ''INFOLINE'' line \<and> List.map_filter float (py_split line) = t # v # rest \<longrightarrow>
              ne_line_loop float [line] [] [] = ([t], [v])"
    by (subst ne_line_loop_single) auto
  have d: "\<forall>line. py_in ''INFOLINE'' line \<and> length (List.map_filter float (py_split line)) < 2 \<longrightarrow>
              ne_line_loop float [line] [] [] = ([], [])"
    by (subst ne_line_loop_single) auto
  have e: "\<forall>line. \<not> py_in ''INFOLINE'' line \<longrightarrow> ne_line_loop float [line] [] [] = ([], [])"
    by (simp add: ne_line_loop_single)
  have f: "load_ne_sequence float_dec
           [monitor_path \<mapsto> [text_line ''INFOLINE:  3.9999900000000002E+002  9.4880000371352313E+000  -5.97E+002'']]
           monitor_path =
           Inr ([39999900000000002 / 100000000000000], [94880000371352313 / 10000000000000000])"
    by (simp add: load_ne_sequence_def del: ne_line_loop.simps)
       (simp add: ne_line_loop_single split_example_line marker_example_line
          List.map_filter_simps float_dec_marker float_dec_tok1 float_dec_tok2 float_dec_tok3
          del: ne_line_loop.simps)
  show ?thesis using a b c d e f by blast
qed

lemma float_dec_small:
  "float_dec ''INFOLINE'' = None" "float_dec ''step'' = None"
  "float_dec ''1.0'' = Some 1" "float_dec ''2.0'' = Some 2" "float_dec ''9.0'' = Some 9"
  by (simp_all add: float_dec_def dec_sign_def dec_mantissa_def dec_exponent_def dec_isign_def
        is_exp_char_def is_digit_def py_isdigit_def py_int_def digit_val_def scale10_def)

lemma split_small:
  "py_split (text_line ''INFOLINE 1.0'') = [''INFOLINE'', ''1.0'']"
  "py_split (text_line ''step 1.0 2.0'') = [''step'', ''1.0'', ''2.0'']"
  "py_split (text_line ''INFOLINE 1.0 9.0'') = [''INFOLINE'', ''1.0'', ''9.0'']"
  by (simp_all add: py_split_def is_space_def text_line_def)

lemma marker_small:
  "py_in ''INFOLINE'' (text_line ''INFOLINE 1.0'')"
  "\<not> py_in ''INFOLINE'' (text_line ''step 1.0 2.0'')"
  "py_in ''INFOLINE'' (text_line ''INFOLINE 1.0 9.0'')"
  by (simp_all add: text_line_def)

text \<open>
  The value the claim gives for the example, \<open>9.488\<close>, is not the value of the second
  token: the reader keeps the number as parsed, \<open>9.4880000371352313\<close>.
\<close>

theorem load_ne_sequence_example_counterexample:
  "load_ne_sequence float_dec
     [''monitor.out'' \<mapsto> [text_line ''INFOLINE:  3.9999900000000002E+002  9.4880000371352313E+000  -5.97E+002'']]
     ''monitor.out'' =
     Inr ([39999900000000002 / 100000000000000], [94880000371352313 / 10000000000000000]) \<and>
   (94880000371352313 / 10000000000000000 :: real) \<noteq> 9488 / 1000"
  by (simp add: load_ne_sequence_def del: ne_line_loop.simps)
     (simp add: ne_line_loop_single split_example_line marker_example_line
        List.map_filter_simps float_dec_marker float_dec_tok1 float_dec_tok2 float_dec_tok3
        del: ne_line_loop.simps)

theorem load_ne_sequence_samples_witness:
  "load_ne_sequence float_dec
     [''monitor.out'' \<mapsto>
        [text_line ''INFOLINE:  3.9999900000000002E+002  9.4880000371352313E+000  -5.97E+002'',
         text_line ''step 1.0 2.0'', text_line ''INFOLINE 1.0'', text_line ''INFOLINE 1.0 9.0'']]
     ''monitor.out'' =
     Inr ([39999900000000002 / 100000000000000, 1], [94880000371352313 / 10000000000000000, 9]) \<and>
   ne_line_loop float_dec [text_line ''INFOLINE 1.0 9.0''] [] [] = ([1], [9]) \<and>
   ne_line_loop float_dec [text_line ''INFOLINE 1.0''] [] [] = ([], []) \<and>
   ne_line_loop float_dec [text_line ''step 1.0 2.0''] [] [] = ([], [])"
proof -
  let ?f = "[text_line ''INFOLINE:  3.9999900000000002E+002  9.4880000371352313E+000  -5.97E+002'',
         text_line ''step 1.0 2.0'', text_line ''INFOLINE 1.0'', text_line ''INFOLINE 1.0 9.0'']"
  let ?fs = "[''monitor.out'' \<mapsto> ?f]"
  have h: "?fs ''monitor.out'' = Some ?f" by simp
  note t = load_ne_sequence_samples[of ?fs "''monitor.out''" ?f float_dec, OF h]
  have sp: "spec_samples float_dec ?f =
      [(39999900000000002 / 100000000000000, 94880000371352313 / 10000000000000000), (1, 9)]"
    by (simp add: spec_samples_def spec_line_sample_def List.map_filter_simps split_example_line
          marker_example_line split_small marker_small float_dec_small
          float_dec_marker float_dec_tok1 float_dec_tok2 float_dec_tok3)
  have a: "load_ne_sequence float_dec ?fs ''monitor.out'' =
     Inr ([39999900000000002 / 100000000000000, 1], [94880000371352313 / 10000000000000000, 9])"
    using t sp by simp
  have m1: "py_in ''INFOLINE'' (text_line ''INFOLINE 1.0 9.0'') \<and>
        List.map_filter float_dec (py_split (text_line ''INFOLINE 1.0 9.0'')) = 1 # 9 # []"
    by (simp add: List.map_filter_simps split_small marker_small float_dec_small)
  have m2: "py_in ''INFOLINE'' (text_line ''INFOLINE 1.0'') \<and>
        length (List.map_filter float_dec (py_split (text_line ''INFOLINE 1.0''))) < 2"
    by (simp add: List.map_filter_simps split_small marker_small float_dec_small)
  have m3: "\<not> py_in ''INFOLINE'' (text_line ''step 1.0 2.0'')"
    by (simp add: marker_small)
  have b: "ne_line_loop float_dec [text_line ''INFOLINE 1.0 9.0''] [] [] = ([1], [9])"
    using t m1 by blast
  have c: "ne_line_loop float_dec [text_line ''INFOLINE 1.0''] [] [] = ([], [])"
    using t m2 by blast
  have d: "ne_line_loop float_dec [text_line ''step 1.0 2.0''] [] [] = ([], [])"
    using t m3 by blast
  show ?thesis using a b c d by blast
qed

section \<open>Properties of the frame reader\<close>

lemma py_isdigit_nonempty: "py_isdigit (py_strip l) \<Longrightarrow> l \<noteq> []"
  by (auto simp: py_isdigit_def py_strip_def)

lemma frames_loop_Nil: "frames_loop float [] = Inr []"
  by (subst frames_loop.simps) simp

lemma frames_loop_skip:
  "l \<noteq> [] \<Longrightarrow> \<not> py_isdigit (py_strip l) \<Longrightarrow> frames_loop float (l # rest) = frames_loop float rest"
  by (subst frames_loop.simps) simp

lemma frames_loop_empty_line: "frames_loop float ([] # rest) = Inr []"
  by (subst frames_loop.simps) simp

lemma frames_loop_count:
  "py_isdigit (py_strip l) \<Longrightarrow>
   frames_loop float (l # rest) =
     (case read_atoms float (nat (py_int (py_strip l))) (snd (readline rest)) of
        Inl e \<Rightarrow> Inl e
      | Inr (frame, fh') \<Rightarrow>
          (case frames_loop float fh' of Inl e \<Rightarrow> Inl e | Inr frames \<Rightarrow> Inr (frame # frames)))"
  using py_isdigit_nonempty[of l] by (subst frames_loop.simps) simp

lemma frames_loop_noise:
  "\<forall>l \<in> set fh. \<not> py_isdigit (py_strip l) \<Longrightarrow> frames_loop float fh = Inr []"
proof (induction fh)
  case Nil
  then show ?case by (simp add: frames_loop_Nil)
next
  case (Cons l fh)
  then show ?case
    by (cases "l = []") (simp_all add: frames_loop_empty_line frames_loop_skip)
qed

lemma read_atoms_short: "length fh < n \<Longrightarrow> read_atoms float n fh = Inl ValueError"
proof (induction n arbitrary: fh)
  case 0
  then show ?case by simp
next
  case (Suc n)
  show ?case
  proof (cases fh)
    case Nil
    then show ?thesis by (simp add: py_split_def)
  next
    case (Cons l ls)
    then have "read_atoms float n ls = Inl ValueError" using Suc by simp
    then show ?thesis using Cons by (simp split: list.splits option.splits)
  qed
qed

lemma ends_mid_frame_raises: "ends_mid_frame float fh \<Longrightarrow> frames_loop float fh = Inl ValueError"
proof (induction rule: ends_mid_frame.induct)
  case (truncated l rest)
  then show ?case by (simp add: frames_loop_count read_atoms_short)
next
  case (skipped l rest)
  then show ?case by (simp add: frames_loop_skip)
next
  case (later l rest frame fh')
  then show ?case by (simp add: frames_loop_count)
qed

text \<open>
  Claim C7, as amended. The frame reader treats the end of the file as the end of the
  data where it looks for an atom-count line: an empty file, and a file without any
  atom-count line, give the empty sequence of frames. A file that ends in the middle of a
  frame is not read silently: the unpacking of the missing atom line raises
  \<open>ValueError\<close>.
\<close>

theorem frames_from_xyz_end_of_data:
  assumes "fs fname = Some fh"
  shows "(fh = [] \<longrightarrow> frames_from_xyz float fs fname = Inr []) \<and>
         ((\<forall>l \<in> set fh. \<not> py_isdigit (py_strip l)) \<longrightarrow> frames_from_xyz float fs fname = Inr []) \<and>
         (ends_mid_frame float fh \<longrightarrow> frames_from_xyz float fs fname = Inl ValueError)"
  using assms by (simp add: frames_from_xyz_def frames_loop_Nil frames_loop_noise ends_mid_frame_raises)

lemma py_split_Nil: "py_split [] = []"
  by (simp add: py_split_def)

lemma split_atom_C: "py_split (text_line ''C 0.0 0.0 0.0'') = [''C'', ''0.0'', ''0.0'', ''0.0'']"
  by (simp add: py_split_def is_space_def text_line_def)

lemma float_dec_zero: "float_dec ''0.0'' = Some 0"
  by (simp add: float_dec_def dec_sign_def dec_mantissa_def dec_exponent_def dec_isign_def
        is_exp_char_def is_digit_def py_isdigit_def py_int_def digit_val_def scale10_def)

lemma count_line_2: "py_strip (text_line ''2'') = ''2''" "py_isdigit ''2''" "py_int ''2'' = 2"
  by (simp_all add: py_strip_def text_line_def is_space_def py_isdigit_def is_digit_def py_int_def digit_val_def)

text \<open>
  The claim as stated fails on a file that declares two atoms and holds one: the reader
  raises instead of ending the data.
\<close>

theorem frames_from_xyz_mid_frame_counterexample:
  "frames_from_xyz float_dec
     [''trajectory.xyz'' \<mapsto> [text_line ''2'', text_line ''comment'', text_line ''C 0.0 0.0 0.0'']]
     ''trajectory.xyz'' = Inl ValueError"
  by (simp add: frames_from_xyz_def frames_loop_count count_line_2 numeral_2_eq_2 split_atom_C
        float_dec_zero py_split_Nil)

theorem frames_from_xyz_end_of_data_witness:
  "frames_from_xyz float_dec [''trajectory.xyz'' \<mapsto> []] ''trajectory.xyz'' = Inr [] \<and>
   frames_from_xyz float_dec [''trajectory.xyz'' \<mapsto> [text_line ''comment'', text_line ''C 0.0 0.0 0.0'']]
     ''trajectory.xyz'' = Inr [] \<and>
   frames_from_xyz float_dec
     [''trajectory.xyz'' \<mapsto> [text_line ''2'', text_line ''comment'', text_line ''C 0.0 0.0 0.0'']]
     ''trajectory.xyz'' = Inl ValueError"
proof -
  let ?p = "''trajectory.xyz''"
  let ?f2 = "[text_line ''comment'', text_line ''C 0.0 0.0 0.0'']"
  let ?f3 = "[text_line ''2'', text_line ''comment'', text_line ''C 0.0 0.0 0.0'']"
  have n2: "\<forall>l \<in> set ?f2. \<not> py_isdigit (py_strip l)"
    by (simp add: py_strip_def text_line_def is_space_def py_isdigit_def is_digit_def)
  have m3: "ends_mid_frame float_dec ?f3"
    by (rule ends_mid_frame.truncated) (simp_all add: count_line_2)
  have a: "frames_from_xyz float_dec [?p \<mapsto> []] ?p = Inr []"
    using frames_from_xyz_end_of_data[of "[?p \<mapsto> []]" ?p "[]" float_dec] by simp
  have b: "frames_from_xyz float_dec [?p \<mapsto> ?f2] ?p = Inr []"
    using frames_from_xyz_end_of_data[of "[?p \<mapsto> ?f2]" ?p ?f2 float_dec] n2 by simp
  have c: "frames_from_xyz float_dec [?p \<mapsto> ?f3] ?p = Inl ValueError"
    using frames_from_xyz_end_of_data[of "[?p \<mapsto> ?f3]" ?p ?f3 float_dec] m3 by simp
  show ?thesis using a b c by simp
qed

section \<open>Properties of the orchestrator\<close>
text \<open>
  Claim C8, as amended. For a path that does not exist the signal reader itself raises
  \<open>FileNotFoundError\<close> (it opens the file without a check). The state "no signal
  data" comes from the orchestrator, which tests \<open>is_file\<close> before it calls the reader:
  with such a path the ionization time is \<open>None\<close> and the report is the one obtained
  with no signal path at all.
\<close>

theorem load_ne_sequence_missing_path:
  assumes "fs monitor_path = None"
  shows "load_ne_sequence float fs monitor_path = Inl FileNotFoundError \<and>
         ionization_locator float fs (Some monitor_path) ne_threshold = Inr None \<and>
         ch_intervals_for_traj float fs traj_path (Some monitor_path) r_cut min_len_frames ne_threshold traj_dt_fs =
         ch_intervals_for_traj float fs traj_path None r_cut min_len_frames ne_threshold traj_dt_fs"
proof -
  have a: "load_ne_sequence float fs monitor_path = Inl FileNotFoundError"
    using assms by (simp add: load_ne_sequence_def)
  have b: "ionization_locator float fs (Some monitor_path) ne_threshold = Inr None"
    using assms by (simp add: ionization_locator_def is_file_def)
  have c: "ionization_locator float fs None ne_threshold = Inr None"
    by (simp add: ionization_locator_def)
  show ?thesis unfolding ch_intervals_for_traj_def a b c by simp
qed

text \<open>On a file system without the monitor file the reader raises.\<close>

theorem load_ne_sequence_missing_path_counterexample:
  "load_ne_sequence float_dec Map.empty ''monitor.out'' = Inl FileNotFoundError \<and>
   load_ne_sequence float_dec Map.empty ''monitor.out'' \<noteq> Inr ([], [])"
  by (simp add: load_ne_sequence_def)

theorem load_ne_sequence_missing_path_witness:
  "load_ne_sequence float_dec [''trajectory.xyz'' \<mapsto> []] ''monitor.out'' = Inl FileNotFoundError \<and>
   ionization_locator float_dec [''trajectory.xyz'' \<mapsto> []] (Some ''monitor.out'') (95/10) = Inr None"
proof -
  have h: "[''trajectory.xyz'' \<mapsto> ([]::string list)] ''monitor.out'' = None" by simp
  from load_ne_sequence_missing_path[of "[''trajectory.xyz'' \<mapsto> []]" "''monitor.out''" float_dec "95/10"] h
  show ?thesis by simp
qed

text \<open>
  Claim C10. For a trajectory that yields no frame the orchestrator returns the report
  with no pair, ionization time \<open>None\<close> and frame count 0, whatever signal path is
  given and whatever the signal file holds: the early return precedes the reading of
  the signal file.
\<close>

theorem ch_intervals_empty_trajectory:
  assumes "frames_from_xyz float fs traj_path = Inr []"
  shows "ch_intervals_for_traj float fs traj_path monitor_path r_cut min_len_frames ne_threshold traj_dt_fs =
         Inr \<lparr>pair_intervals = Map.empty, t_ion_fs = None, n_frames = 0\<rparr>"
  using assms by (simp add: ch_intervals_for_traj_def)

theorem ch_intervals_empty_trajectory_witness:
  "frames_from_xyz float_dec
     [''trajectory.xyz'' \<mapsto> [], ''monitor.out'' \<mapsto> [text_line ''INFOLINE 1.0 9.0'']]
     ''trajectory.xyz'' = Inr [] \<and>
   ionization_locator float_dec
     [''trajectory.xyz'' \<mapsto> [], ''monitor.out'' \<mapsto> [text_line ''INFOLINE 1.0 9.0'']]
     (Some ''monitor.out'') (95/10) = Inr (Some 1) \<and>
   ch_intervals_for_traj float_dec
     [''trajectory.xyz'' \<mapsto> [], ''monitor.out'' \<mapsto> [text_line ''INFOLINE 1.0 9.0'']]
     ''trajectory.xyz'' (Some ''monitor.out'') 2 1 (95/10) (1/2) =
     Inr \<lparr>pair_intervals = Map.empty, t_ion_fs = None, n_frames = 0\<rparr>"
proof -
  let ?fs = "[''trajectory.xyz'' \<mapsto> [], ''monitor.out'' \<mapsto> [text_line ''INFOLINE 1.0 9.0'']]"
  have h: "frames_from_xyz float_dec ?fs ''trajectory.xyz'' = Inr []"
    by (simp add: frames_from_xyz_def frames_loop_Nil)
  have i: "ionization_locator float_dec ?fs (Some ''monitor.out'') (95/10) = Inr (Some 1)"
    by (simp add: ionization_locator_def is_file_def load_ne_sequence_def ionization_time_def
          del: ne_line_loop.simps)
       (simp add: ne_line_loop_single split_small marker_small float_dec_small List.map_filter_simps
          del: ne_line_loop.simps)
  from ch_intervals_empty_trajectory[of float_dec ?fs "''trajectory.xyz''" "Some ''monitor.out''" 2 1 "95/10" "1/2", OF h] h i
  show ?thesis by simp
qed

section \<open>Properties of the pair analysis\<close>

lemma char_eq_code: "(c = d) \<longleftrightarrow> (of_char c :: nat) = of_char d"
  by simp

lemma upper_char_code:
  "(of_char (upper_char c) :: nat) =
     (if 97 \<le> (of_char c :: nat) \<and> (of_char c :: nat) \<le> 122 then of_char c - 32 else of_char c)"
proof -
  have "(of_char c :: nat) - 32 < 256" using nat_of_char_less_256[of c] by linarith
  then show ?thesis by (simp add: upper_char_def)
qed

lemma upper_char_C: "upper_char c = CHR ''C'' \<longleftrightarrow> c = CHR ''C'' \<or> c = CHR ''c''"
  unfolding char_eq_code[of _ "CHR ''C''"] char_eq_code[of _ "CHR ''c''"] upper_char_code
  by (simp split: if_splits) linarith

lemma upper_char_H: "upper_char c = CHR ''H'' \<longleftrightarrow> c = CHR ''H'' \<or> c = CHR ''h''"
  unfolding char_eq_code[of _ "CHR ''H''"] char_eq_code[of _ "CHR ''h''"] upper_char_code
  by (simp split: if_splits) linarith

lemma py_upper_C: "py_upper el = ''C'' \<longleftrightarrow> el = ''C'' \<or> el = ''c''"
  by (cases el) (auto simp: py_upper_def upper_char_C)

lemma py_upper_H: "py_upper el = ''H'' \<longleftrightarrow> el = ''H'' \<or> el = ''h''"
  by (cases el) (auto simp: py_upper_def upper_char_H)

lemma label_idx_iff:
  "i \<in> set (label_idx label elems) \<longleftrightarrow> 0 \<le> i \<and> i < int (length elems) \<and> py_upper (elems ! nat i) = label"
proof
  assume "i \<in> set (label_idx label elems)"
  then obtain el where "(i, el) \<in> set (zip (map int [0..<length elems]) elems)" "py_upper el = label"
    by (auto simp: label_idx_def enumerate_from0_def)
  then show "0 \<le> i \<and> i < int (length elems) \<and> py_upper (elems ! nat i) = label"
    by (auto simp: set_zip)
next
  assume h: "0 \<le> i \<and> i < int (length elems) \<and> py_upper (elems ! nat i) = label"
  then have "nat i < length elems" by linarith
  then have "(i, elems ! nat i) \<in> set (zip (map int [0..<length elems]) elems)"
    using h by (auto simp: set_zip intro!: exI[of _ "nat i"])
  then show "i \<in> set (label_idx label elems)"
    using h by (force simp: label_idx_def enumerate_from0_def)
qed

lemma pair_seq_length: "pair_seq frames ci hi = Inr seq \<Longrightarrow> length seq = length frames"
proof (induction frames arbitrary: seq)
  case Nil
  then show ?case by simp
next
  case (Cons frame frames)
  then show ?case by (auto simp: Let_def split: sum.splits)
qed

lemma geom_times_nth:
  "0 \<le> i \<Longrightarrow> i < int n \<Longrightarrow> py_getitem (geom_times n dt) i = Inr (real_of_int i * dt)"
  by (simp add: py_getitem_def geom_times_def)

lemma enrich_geom_times:
  assumes "\<forall>iv \<in> set raw. 0 \<le> fst iv \<and> fst iv \<le> snd iv \<and> snd iv < int n"
  shows "enrich (geom_times n dt) raw = Inr (map (timed dt) raw)"
  using assms
proof (induction raw)
  case Nil
  then show ?case by simp
next
  case (Cons iv raw)
  obtain s e where iv: "iv = (s, e)" by (cases iv)
  have b: "0 \<le> s" "s \<le> e" "e < int n" using Cons.prems iv by auto
  have "py_getitem (geom_times n dt) s = Inr (real_of_int s * dt)"
    using b by (intro geom_times_nth) auto
  moreover have "py_getitem (geom_times n dt) e = Inr (real_of_int e * dt)"
    using b by (intro geom_times_nth) auto
  moreover have "enrich (geom_times n dt) raw = Inr (map (timed dt) raw)"
    using Cons by simp
  ultimately show ?case using iv by (simp add: timed_def)
qed

lemma enrich_find_intervals:
  assumes "pair_seq frames ci hi = Inr seq"
  shows "enrich (geom_times (length frames) dt) (find_intervals seq r_cut m) =
         Inr (map (timed dt) (find_intervals seq r_cut m))"
proof (rule enrich_geom_times)
  show "\<forall>iv \<in> set (find_intervals seq r_cut m). 0 \<le> fst iv \<and> fst iv \<le> snd iv \<and> snd iv < int (length frames)"
    using find_intervals_member[of _ seq r_cut m] pair_seq_length[OF assms] by auto
qed

lemma h_loop_step:
  assumes "pair_seq frames ci hi = Inr seq"
  shows "h_loop frames (geom_times (length frames) dt) r_cut m ci (hi # h_rest) pi0 =
         h_loop frames (geom_times (length frames) dt) r_cut m ci h_rest
           (case pair_entry frames r_cut m dt ci hi of None \<Rightarrow> pi0 | Some en \<Rightarrow> pi0((ci, hi) \<mapsto> en))"
  using assms enrich_find_intervals[OF assms, of dt r_cut m]
  by (simp add: pair_entry_def Let_def)

lemma h_loop_result:
  assumes "h_loop frames (geom_times (length frames) dt) r_cut m ci hs pi0 = Inr pairs"
  shows "pairs = (\<lambda>k. if fst k = ci \<and> snd k \<in> set hs \<and> pair_entry frames r_cut m dt ci (snd k) \<noteq> None
                      then pair_entry frames r_cut m dt ci (snd k) else pi0 k)"
  using assms
proof (induction hs arbitrary: pi0)
  case Nil
  then show ?case by auto
next
  case (Cons hi hs)
  show ?case
  proof (cases "pair_seq frames ci hi")
    case (Inl e)
    then show ?thesis using Cons.prems by simp
  next
    case (Inr seq)
    let ?pi1 = "case pair_entry frames r_cut m dt ci hi of None \<Rightarrow> pi0 | Some en \<Rightarrow> pi0((ci, hi) \<mapsto> en)"
    have "h_loop frames (geom_times (length frames) dt) r_cut m ci hs ?pi1 = Inr pairs"
      using Cons.prems h_loop_step[OF Inr, of dt r_cut m hs pi0] by simp
    from Cons.IH[OF this]
    show ?thesis by (auto simp: fun_eq_iff split: option.splits)
  qed
qed

lemma c_loop_result:
  assumes "c_loop frames (geom_times (length frames) dt) r_cut m cs hs pi0 = Inr pairs"
  shows "pairs = (\<lambda>k. if fst k \<in> set cs \<and> snd k \<in> set hs \<and> pair_entry frames r_cut m dt (fst k) (snd k) \<noteq> None
                      then pair_entry frames r_cut m dt (fst k) (snd k) else pi0 k)"
  using assms
proof (induction cs arbitrary: pi0)
  case Nil
  then show ?case by auto
next
  case (Cons ci cs)
  then obtain pi1 where
    h: "h_loop frames (geom_times (length frames) dt) r_cut m ci hs pi0 = Inr pi1"
    and c: "c_loop frames (geom_times (length frames) dt) r_cut m cs hs pi1 = Inr pairs"
    by (auto split: sum.splits)
  show ?case
    unfolding Cons.IH[OF c] h_loop_result[OF h]
    by (auto simp: fun_eq_iff)
qed

lemma h_loop_succeeds:
  assumes "\<forall>hi \<in> set hs. \<exists>seq. pair_seq frames ci hi = Inr seq"
  shows "\<exists>pairs. h_loop frames (geom_times (length frames) dt) r_cut m ci hs pi0 = Inr pairs"
  using assms
proof (induction hs arbitrary: pi0)
  case Nil
  then show ?case by simp
next
  case (Cons hi hs)
  then obtain seq where s: "pair_seq frames ci hi = Inr seq" by auto
  show ?case
    unfolding h_loop_step[OF s] using Cons by simp
qed

lemma c_loop_succeeds:
  assumes "\<forall>ci \<in> set cs. \<forall>hi \<in> set hs. \<exists>seq. pair_seq frames ci hi = Inr seq"
  shows "\<exists>pairs. c_loop frames (geom_times (length frames) dt) r_cut m cs hs pi0 = Inr pairs"
  using assms
proof (induction cs arbitrary: pi0)
  case Nil
  then show ?case by simp
next
  case (Cons ci cs)
  then obtain pi1 where
    h: "h_loop frames (geom_times (length frames) dt) r_cut m ci hs pi0 = Inr pi1"
    using h_loop_succeeds[of hs frames ci dt r_cut m pi0] by auto
  show ?case using h Cons by simp
qed

lemma label_idx_carbon: "i \<in> set (label_idx ''C'' (map fst fr)) \<longleftrightarrow> carbon_at fr i"
proof (cases "0 \<le> i \<and> i < int (length fr)")
  case True
  then have "nat i < length fr" by linarith
  then show ?thesis using True by (simp add: label_idx_iff carbon_at_def py_upper_C)
next
  case False
  then show ?thesis by (auto simp: label_idx_iff carbon_at_def)
qed

lemma label_idx_hydrogen: "i \<in> set (label_idx ''H'' (map fst fr)) \<longleftrightarrow> hydrogen_at fr i"
proof (cases "0 \<le> i \<and> i < int (length fr)")
  case True
  then have "nat i < length fr" by linarith
  then show ?thesis using True by (simp add: label_idx_iff hydrogen_at_def py_upper_H)
next
  case False
  then show ?thesis by (auto simp: label_idx_iff hydrogen_at_def)
qed

lemma pair_analyzer_unfold:
  assumes "frames \<noteq> []"
  shows "pair_analyzer frames r_cut m dt =
     (if label_idx ''C'' (map fst (hd frames)) = [] \<or> label_idx ''H'' (map fst (hd frames)) = []
      then Inr Map.empty
      else c_loop frames (geom_times (length frames) dt) r_cut m
             (label_idx ''C'' (map fst (hd frames))) (label_idx ''H'' (map fst (hd frames))) Map.empty)"
proof -
  have "py_getitem frames 0 = Inr (hd frames)"
    using assms by (cases frames) (simp_all add: py_getitem_def)
  then show ?thesis by (simp add: pair_analyzer_def geom_times_def Let_def)
qed

lemma pair_analyzer_Nil: "pair_analyzer [] r_cut m dt = Inl IndexError"
  by (simp add: pair_analyzer_def py_getitem_def)

lemma pair_analyzer_result:
  assumes "pair_analyzer frames r_cut m dt = Inr pairs"
  shows "pairs = (\<lambda>k. if carbon_at (hd frames) (fst k) \<and> hydrogen_at (hd frames) (snd k)
                      then pair_entry frames r_cut m dt (fst k) (snd k) else None)"
proof -
  have ne: "frames \<noteq> []" using assms pair_analyzer_Nil by auto
  let ?C = "label_idx ''C'' (map fst (hd frames))"
  let ?H = "label_idx ''H'' (map fst (hd frames))"
  show ?thesis
  proof (cases "?C = [] \<or> ?H = []")
    case True
    then have "pairs = Map.empty" using assms pair_analyzer_unfold[OF ne, of r_cut m dt] by simp
    moreover have "\<And>a b. \<not> (carbon_at (hd frames) a \<and> hydrogen_at (hd frames) b)"
      using True label_idx_carbon[of _ "hd frames"] label_idx_hydrogen[of _ "hd frames"]
      by (metis empty_iff empty_set)
    ultimately show ?thesis by (auto simp: fun_eq_iff)
  next
    case False
    then have "c_loop frames (geom_times (length frames) dt) r_cut m ?C ?H Map.empty = Inr pairs"
      using assms pair_analyzer_unfold[OF ne, of r_cut m dt] by simp
    from c_loop_result[OF this] show ?thesis
      by (auto simp: fun_eq_iff label_idx_carbon label_idx_hydrogen)
  qed
qed

lemma dist2_three: "length a = 3 \<Longrightarrow> length b = 3 \<Longrightarrow> \<exists>d. dist2 a b = Inr d"
  by (simp add: dist2_def py_getitem_def)

lemma pair_seq_succeeds:
  assumes "\<forall>frame \<in> set frames. length frame = n \<and> (\<forall>atom \<in> set frame. length (snd atom) = 3)"
    and "0 \<le> ci" "ci < int n" "0 \<le> hi" "hi < int n"
  shows "\<exists>seq. pair_seq frames ci hi = Inr seq"
  using assms(1)
proof (induction frames)
  case Nil
  then show ?case by simp
next
  case (Cons frame frames)
  have len: "length frame = n" and atoms: "\<forall>atom \<in> set frame. length (snd atom) = 3"
    using Cons.prems by auto
  have ci: "nat ci < length frame" and hi: "nat hi < length frame"
    using assms(2-5) len by linarith+
  have a: "py_getitem (map snd frame) ci = Inr (snd (frame ! nat ci))"
    using assms(2,3) len ci by (simp add: py_getitem_def)
  have b: "py_getitem (map snd frame) hi = Inr (snd (frame ! nat hi))"
    using assms(4,5) len hi by (simp add: py_getitem_def)
  have "length (snd (frame ! nat ci)) = 3" "length (snd (frame ! nat hi)) = 3"
    using atoms ci hi by auto
  then obtain d where d: "dist2 (snd (frame ! nat ci)) (snd (frame ! nat hi)) = Inr d"
    using dist2_three by blast
  obtain seq where "pair_seq frames ci hi = Inr seq" using Cons by auto
  then show ?case using a b d by (simp add: Let_def)
qed

lemma pair_analyzer_succeeds:
  assumes "frames \<noteq> []" "well_formed_trajectory frames"
  shows "\<exists>pairs. pair_analyzer frames r_cut m dt = Inr pairs"
proof -
  have wf: "\<forall>frame \<in> set frames. length frame = length (hd frames) \<and> (\<forall>atom \<in> set frame. length (snd atom) = 3)"
    using assms(2) by (simp add: well_formed_trajectory_def list_all_iff)
  have "\<forall>ci \<in> set (label_idx ''C'' (map fst (hd frames))).
        \<forall>hi \<in> set (label_idx ''H'' (map fst (hd frames))). \<exists>seq. pair_seq frames ci hi = Inr seq"
  proof (intro ballI)
    fix ci hi
    assume "ci \<in> set (label_idx ''C'' (map fst (hd frames)))" "hi \<in> set (label_idx ''H'' (map fst (hd frames)))"
    then have "0 \<le> ci" "ci < int (length (hd frames))" "0 \<le> hi" "hi < int (length (hd frames))"
      by (simp_all add: label_idx_iff)
    then show "\<exists>seq. pair_seq frames ci hi = Inr seq"
      using pair_seq_succeeds[OF wf] by blast
  qed
  from c_loop_succeeds[OF this] show ?thesis
    unfolding pair_analyzer_unfold[OF assms(1)] by auto
qed

lemma pair_entry_nonempty: "pair_entry frames r_cut m dt ci hi \<noteq> Some []"
  by (simp add: pair_entry_def split: sum.splits)

text \<open>
  Claim C5. For a non-empty trajectory, whenever the pair analysis returns a mapping, a
  pair \<open>(ci, hi)\<close> is a key of it exactly when frame 0 labels atom \<open>ci\<close> as carbon and
  atom \<open>hi\<close> as hydrogen (in either case of the label) and the distance series of the
  pair gives at least one interval; no key is mapped to the empty list; the mapping is
  empty when frame 0 has no carbon or no hydrogen; and on a well-formed trajectory the
  analysis does return a mapping.
\<close>

theorem pair_analyzer_mapping:
  assumes "frames \<noteq> []"
  shows "(\<forall>pairs. pair_analyzer frames r_cut min_len_frames traj_dt_fs = Inr pairs \<longrightarrow>
            (\<forall>ci hi. (ci, hi) \<in> dom pairs \<longleftrightarrow>
               carbon_at (hd frames) ci \<and> hydrogen_at (hd frames) hi \<and>
               (\<exists>seq. pair_seq frames ci hi = Inr seq \<and> find_intervals seq r_cut min_len_frames \<noteq> [])) \<and>
            (\<forall>k. pairs k \<noteq> Some [])) \<and>
         ((\<forall>i. \<not> carbon_at (hd frames) i) \<or> (\<forall>i. \<not> hydrogen_at (hd frames) i) \<longrightarrow>
            pair_analyzer frames r_cut min_len_frames traj_dt_fs = Inr Map.empty) \<and>
         (well_formed_trajectory frames \<longrightarrow>
            (\<exists>pairs. pair_analyzer frames r_cut min_len_frames traj_dt_fs = Inr pairs))"
proof (intro conjI allI impI)
  fix pairs ci hi
  assume p: "pair_analyzer frames r_cut min_len_frames traj_dt_fs = Inr pairs"
  show "(ci, hi) \<in> dom pairs \<longleftrightarrow>
          carbon_at (hd frames) ci \<and> hydrogen_at (hd frames) hi \<and>
          (\<exists>seq. pair_seq frames ci hi = Inr seq \<and> find_intervals seq r_cut min_len_frames \<noteq> [])"
    unfolding pair_analyzer_result[OF p]
    by (auto simp: dom_def pair_entry_def split: sum.splits if_splits)
next
  fix pairs k
  assume p: "pair_analyzer frames r_cut min_len_frames traj_dt_fs = Inr pairs"
  show "pairs k \<noteq> Some []"
    unfolding pair_analyzer_result[OF p] by (simp add: pair_entry_nonempty)
next
  assume "(\<forall>i. \<not> carbon_at (hd frames) i) \<or> (\<forall>i. \<not> hydrogen_at (hd frames) i)"
  then have "(\<forall>i. i \<notin> set (label_idx ''C'' (map fst (hd frames)))) \<or>
             (\<forall>i. i \<notin> set (label_idx ''H'' (map fst (hd frames))))"
    by (simp add: label_idx_carbon label_idx_hydrogen)
  then have "label_idx ''C'' (map fst (hd frames)) = [] \<or> label_idx ''H'' (map fst (hd frames)) = []"
    by (metis list.set_intros(1) neq_Nil_conv)
  then show "pair_analyzer frames r_cut min_len_frames traj_dt_fs = Inr Map.empty"
    unfolding pair_analyzer_unfold[OF assms] by simp
next
  assume "well_formed_trajectory frames"
  then show "\<exists>pairs. pair_analyzer frames r_cut min_len_frames traj_dt_fs = Inr pairs"
    using pair_analyzer_succeeds[OF assms] by blast
qed

text \<open>
  Claim C2. For a trajectory in which the distance series of a carbon--hydrogen pair is
  \<open>[1.8, 1.9, 2.1, 1.7, 1.6]\<close>, with cutoff \<open>2.0\<close>, minimum run length 1 and time step
  \<open>0.5\<close>, the pair analysis reports for the pair exactly the intervals \<open>(0, 1)\<close> and
  \<open>(3, 4)\<close> with the times \<open>0.0, 0.5\<close> and \<open>1.5, 2.0\<close> and the durations \<open>0.5\<close>. In
  general every reported interval carries the times index times time step and their
  difference.
\<close>

theorem pair_analyzer_example:
  assumes "pair_analyzer frames r_cut min_len_frames traj_dt_fs = Inr pairs"
    and "carbon_at (hd frames) ci" "hydrogen_at (hd frames) hi"
    and "pair_seq frames ci hi = Inr seq"
  shows "(find_intervals seq r_cut min_len_frames \<noteq> [] \<longrightarrow>
            pairs (ci, hi) = Some (map (timed traj_dt_fs) (find_intervals seq r_cut min_len_frames))) \<and>
         (seq = [18/10, 19/10, 21/10, 17/10, 16/10] \<and> r_cut = 2 \<and> min_len_frames = 1 \<and> traj_dt_fs = 1/2 \<longrightarrow>
            pairs (ci, hi) = Some [(0, 1, 0, 1/2, 1/2), (3, 4, 3/2, 2, 1/2)])"
proof -
  have e: "pairs (ci, hi) = pair_entry frames r_cut min_len_frames traj_dt_fs ci hi"
    unfolding pair_analyzer_result[OF assms(1)] using assms(2,3) by simp
  have a: "find_intervals seq r_cut min_len_frames \<noteq> [] \<longrightarrow>
            pairs (ci, hi) = Some (map (timed traj_dt_fs) (find_intervals seq r_cut min_len_frames))"
    using e assms(4) by (simp add: pair_entry_def)
  have v: "find_intervals [18/10, 19/10, 21/10, 17/10, 16/10 :: real] 2 1 = [(0, 1), (3, 4)]"
    by (simp add: find_intervals_def)
  have b: "seq = [18/10, 19/10, 21/10, 17/10, 16/10] \<and> r_cut = 2 \<and> min_len_frames = 1 \<and> traj_dt_fs = 1/2 \<longrightarrow>
            pairs (ci, hi) = Some [(0, 1, 0, 1/2, 1/2), (3, 4, 3/2, 2, 1/2)]"
  proof
    assume h: "seq = [18/10, 19/10, 21/10, 17/10, 16/10] \<and> r_cut = 2 \<and> min_len_frames = 1 \<and> traj_dt_fs = 1/2"
    then have "find_intervals seq r_cut min_len_frames = [(0, 1), (3, 4)]" using v by simp
    then have "pairs (ci, hi) = Some (map (timed traj_dt_fs) [(0, 1), (3, 4)])"
      using e assms(4) by (simp add: pair_entry_def)
    then show "pairs (ci, hi) = Some [(0, 1, 0, 1/2, 1/2), (3, 4, 3/2, 2, 1/2)]"
      using h by (simp add: timed_def)
  qed
  show ?thesis using a b by blast
qed

lemma pair_seq_example:
  "list_all (\<lambda>x. 0 \<le> x) xs \<Longrightarrow> pair_seq (map example_frame xs) 0 1 = Inr xs"
proof (induction xs)
  case Nil
  then show ?case by simp
next
  case (Cons x xs)
  then have x: "0 \<le> x" and r: "pair_seq (map example_frame xs) 0 1 = Inr xs" by simp_all
  have d: "dist2 [0, 0, 0] [x, 0, 0] = Inr (x\<^sup>2)"
    by (simp add: dist2_def py_getitem_def)
  have g: "py_getitem (map snd (example_frame x)) 0 = Inr [0, 0, 0]"
    "py_getitem (map snd (example_frame x)) 1 = Inr [x, 0, 0]"
    by (simp_all add: py_getitem_def example_frame_def)
  show ?case using x r d g by (simp add: Let_def)
qed

lemma example_frames_props:
  "map example_frame (x # xs) \<noteq> []"
  "well_formed_trajectory (map example_frame (x # xs))"
  "carbon_at (hd (map example_frame (x # xs))) 0"
  "hydrogen_at (hd (map example_frame (x # xs))) 1"
  "\<not> carbon_at (hd (map example_frame (x # xs))) 1"
  "\<not> hydrogen_at (hd (map example_frame (x # xs))) 2"
  by (simp_all add: well_formed_trajectory_def example_frame_def carbon_at_def hydrogen_at_def
        list_all_iff)

theorem pair_analyzer_example_witness:
  "\<exists>pairs. pair_analyzer (map example_frame [18/10, 19/10, 21/10, 17/10, 16/10]) 2 1 (1/2) = Inr pairs \<and>
     pair_seq (map example_frame [18/10, 19/10, 21/10, 17/10, 16/10]) 0 1 =
       Inr [18/10, 19/10, 21/10, 17/10, 16/10] \<and>
     pairs (0, 1) = Some [(0, 1, 0, 1/2, 1/2), (3, 4, 3/2, 2, 1/2)]"
proof -
  let ?xs = "[18/10, 19/10, 21/10, 17/10, 16/10 :: real]"
  let ?F = "map example_frame ?xs"
  obtain pairs where p: "pair_analyzer ?F 2 1 (1/2) = Inr pairs"
    using pair_analyzer_succeeds[OF example_frames_props(1,2), of "18/10" "tl ?xs" 2 1 "1/2"]
    by auto
  have s: "pair_seq ?F 0 1 = Inr ?xs"
    by (rule pair_seq_example) simp
  have c: "carbon_at (hd ?F) 0" by (rule example_frames_props(3))
  have h: "hydrogen_at (hd ?F) 1" by (rule example_frames_props(4))
  from pair_analyzer_example[OF p c h s]
  have "pairs (0, 1) = Some [(0, 1, 0, 1/2, 1/2), (3, 4, 3/2, 2, 1/2)]" by blast
  then show ?thesis using p s by blast
qed

theorem pair_analyzer_mapping_witness:
  "(\<exists>pairs. pair_analyzer (map example_frame [18/10, 19/10, 21/10, 17/10, 16/10]) 2 1 (1/2) = Inr pairs \<and>
      (0, 1) \<in> dom pairs \<and> (1, 0) \<notin> dom pairs \<and> (0, 2) \<notin> dom pairs \<and> pairs (0, 1) \<noteq> Some []) \<and>
   pair_analyzer [[(''C'', [0, 0, 0]), (''O'', [0, 0, 9])]] 2 1 (1/2) = Inr Map.empty"
proof -
  let ?xs = "[18/10, 19/10, 21/10, 17/10, 16/10 :: real]"
  let ?F = "map example_frame ?xs"
  let ?G = "[[(''C'', [0, 0, 0]), (''O'', [0, 0, 9 :: real])]]"
  have ne: "?F \<noteq> []" by simp
  note t = pair_analyzer_mapping[OF ne, of 2 1 "1/2"]
  have wf: "well_formed_trajectory ?F" by (rule example_frames_props(2))
  then obtain pairs where p: "pair_analyzer ?F 2 1 (1/2) = Inr pairs" using t by blast
  have s: "pair_seq ?F 0 1 = Inr ?xs"
    by (rule pair_seq_example) simp
  have v: "find_intervals ?xs 2 1 \<noteq> []"
    by (simp add: find_intervals_def)
  have c: "carbon_at (hd ?F) 0" by (rule example_frames_props(3))
  have h: "hydrogen_at (hd ?F) 1" by (rule example_frames_props(4))
  have nc: "\<not> carbon_at (hd ?F) 1" by (rule example_frames_props(5))
  have nh: "\<not> hydrogen_at (hd ?F) 2" by (rule example_frames_props(6))
  have a: "(0, 1) \<in> dom pairs" using t p c h s v by blast
  have b: "(1, 0) \<notin> dom pairs" using t p nc by blast
  have d: "(0, 2) \<notin> dom pairs" using t p nh by blast
  have e: "pairs (0, 1) \<noteq> Some []" using t p by blast
  have gne: "?G \<noteq> []" by simp
  have "\<forall>i. \<not> hydrogen_at (hd ?G) i"
    by (auto simp: hydrogen_at_def nth_Cons split: nat.splits)
  then have g: "pair_analyzer ?G 2 1 (1/2) = Inr Map.empty"
    using pair_analyzer_mapping[OF gne, of 2 1 "1/2"] by blast
  show ?thesis using p a b d e g by blast
qed

end
